theory Spec2Isabelle
  imports Main
begin

section \<open>Tensors, operator state and failures\<close>

text \<open>
  A caffe2 tensor is a shape together with a contiguous row-major buffer. The element
  type \<open>T\<close> of \<open>EigenConvOp<T>\<close> is the type parameter \<open>'a\<close>; the arithmetic
  used on it is a zero, a sum and a product. The theorems that relate the two layouts
  or single out the bias assume no law of them, so they hold for rounded arithmetic as
  well; the theorems that write an output element as a sum over the kernel window take
  the sum to be commutative and associative, and there the order in which the
  linear-algebra library accumulates a dot product is not modelled.
  Sizes and indices are unbounded naturals; coordinates that may become negative
  (a window start left of the image) are integers.
\<close>

record 'a tensor =
  dims :: "nat list"
  data :: "'a list"

definition ndim :: "'a tensor \<Rightarrow> nat" where
  "ndim t = length (dims t)"

text \<open>\<open>Tensor::size()\<close>: the number of elements the shape describes.\<close>

definition size_of :: "'a tensor \<Rightarrow> nat" where
  "size_of t = prod_list (dims t)"

text \<open>A tensor whose buffer holds exactly the elements of its shape.\<close>

definition wf_tensor :: "'a tensor \<Rightarrow> bool" where
  "wf_tensor t \<longleftrightarrow> length (data t) = prod_list (dims t)"

text \<open>
  The failures of a call. \<open>InvalidShape\<close> is the exception of a failed
  \<open>CAFFE_ENFORCE\<close>; reading with \<open>dim32\<close> a dimension that a tensor does not
  have is taken to fail in the same way. \<open>InconsistentOutputSize\<close> is raised by
  \<open>SetOutputSize\<close>. \<open>DivideByZero\<close> stands for the integer division
  \<open>Y->size() / M\<close> with \<open>M = 0\<close> (lines 63 and 157), which no check excludes:
  a filter of shape (0, kernel_h, kernel_w, C) passes every \<open>CAFFE_ENFORCE\<close>.
\<close>

datatype error = InvalidShape | InconsistentOutputSize | DivideByZero

text \<open>
  The blobs of one operator call: \<open>Input(INPUT)\<close>, \<open>Input(FILTER)\<close>,
  \<open>Input(BIAS)\<close> and \<open>Output(0)\<close>. A run returns the failure, if any, and the
  blobs as the call leaves them.
\<close>

record 'a blobs =
  INPUT :: "'a tensor"
  FILTER :: "'a tensor"
  BIAS :: "'a tensor"
  OUTPUT :: "'a tensor"

text \<open>
  The members of \<open>ConvPoolOpBase\<close> the operator reads (\<open>kernel_h_\<close>, \<open>stride_h_\<close>,
  \<open>pad_t_\<close>, ...), without the trailing underscore. They are non-negative; the spec
  takes strides and kernel sizes to be at least 1, and the theorems that depend on a
  division by a stride assume it positive.
\<close>

record conv_params =
  kernel_h :: nat
  kernel_w :: nat
  stride_h :: nat
  stride_w :: nat
  dilation_h :: nat
  dilation_w :: nat
  pad_t :: nat
  pad_l :: nat
  pad_b :: nat
  pad_r :: nat

datatype storage_order = NCHW | NHWC

section \<open>The shape calculator\<close>

text \<open>
  Modelled from the spec: \<open>ConvPoolOpBase::SetOutputSize\<close> is declared in
  \<open>conv_pool_op_base.h\<close>, which is not among the sources. The spec gives the size of
  one output dimension as
  \<open>floor((inDim + padBefore + padAfter - dilation*(kernel-1) - 1) / stride) + 1\<close>,
  says that the output buffer is allocated by the caller and never resized by the
  operator, and that an output buffer whose dimensions do not match the convolution
  arithmetic is an \<open>InconsistentOutputSize\<close> failure. The spec has strides of at
  least 1; for a stride of 0 the quotient below is HOL's \<open>x div 0 = 0\<close>.
\<close>

definition out_dim :: "nat \<Rightarrow> nat \<Rightarrow> nat \<Rightarrow> nat \<Rightarrow> nat \<Rightarrow> nat \<Rightarrow> int" where
  "out_dim inDim kern stride dilation padBefore padAfter =
     (int inDim + int padBefore + int padAfter - int dilation * (int kern - 1) - 1)
        div int stride + 1"

definition SetOutputSize ::
  "conv_params \<Rightarrow> storage_order \<Rightarrow> 'a tensor \<Rightarrow> 'a tensor \<Rightarrow> nat \<Rightarrow> error option" where
  "SetOutputSize p order X Y output_channel =
     (let N = dims X ! 0;
          H = (case order of NCHW \<Rightarrow> dims X ! 2 | NHWC \<Rightarrow> dims X ! 1);
          W = (case order of NCHW \<Rightarrow> dims X ! 3 | NHWC \<Rightarrow> dims X ! 2);
          out_h = out_dim H (kernel_h p) (stride_h p) (dilation_h p) (pad_t p) (pad_b p);
          out_w = out_dim W (kernel_w p) (stride_w p) (dilation_w p) (pad_l p) (pad_r p);
          expected = (case order of
                        NCHW \<Rightarrow> [int N, int output_channel, out_h, out_w]
                      | NHWC \<Rightarrow> [int N, out_h, out_w, int output_channel])
      in if map int (dims Y) = expected then None else Some InconsistentOutputSize)"

section \<open>The Eigen primitives the operator calls\<close>

text \<open>
  The Eigen tensor library (\<open>unsupported/Eigen/CXX11/Tensor\<close>) and caffe2's
  \<open>EigenArrayMap\<close> are not among the sources. The definitions of this section stand
  for the calls the operator makes into them, after the spec's Layout Transposer (4.2),
  Patch Extractor (4.3), Contraction Stage (4.4) and Bias Broadcast-Add (4.5), in the
  argument conventions of those calls. All tensors are \<open>Eigen::RowMajor\<close>; the
  two-dimensional \<open>EigenArrayMap\<close> is column-major.
\<close>

text \<open>
  Modelled from the spec: the row-major addressing of the Eigen tensors (3, "contiguous,
  row-major within its declared dimension order"): the strides of a shape, and the
  multi-index of a linear index under given strides.
\<close>

fun strides :: "nat list \<Rightarrow> nat list" where
  "strides [] = []"
| "strides (d # ds) = prod_list ds # strides ds"

fun unravel :: "nat list \<Rightarrow> nat \<Rightarrow> nat list" where
  "unravel [] k = []"
| "unravel (s # ss) k = (k div s) # unravel ss (k mod s)"

text \<open>
  Modelled from the spec: Eigen's \<open>TensorMap(buf, d0, d1, ...)\<close>, a view of the first
  elements of a buffer under a shape (the spec's non-owning view with explicit dimension
  metadata).
\<close>

definition TensorMap :: "'a list \<Rightarrow> nat list \<Rightarrow> 'a tensor" where
  "TensorMap buf ds = \<lparr>dims = ds, data = take (prod_list ds) buf\<rparr>"

text \<open>
  Modelled from the spec: Eigen's \<open>t.shuffle(perm)\<close>, the Layout Transposer (4.2),
  a permutation given as an index array. Dimension \<open>i\<close> of the result is dimension \<open>perm ! i\<close> of
  \<open>t\<close>, and the element at a multi-index of the result is the element of \<open>t\<close>
  whose coordinate \<open>perm ! i\<close> is the \<open>i\<close>-th coordinate of that multi-index.
\<close>

definition shuffle :: "nat list \<Rightarrow> 'a tensor \<Rightarrow> 'a tensor" where
  "shuffle perm t =
     (let out_dims = map (\<lambda>i. dims t ! i) perm;
          in_strides = strides (dims t)
      in \<lparr>dims = out_dims,
          data = map (\<lambda>k. data t !
                            sum_list (map2 (\<lambda>idx i. idx * (in_strides ! i))
                                           (unravel (strides out_dims) k) perm))
                     [0..<prod_list out_dims]\<rparr>)"

text \<open>
  Modelled from the spec: Eigen's \<open>t.reshape(ds)\<close>, the same elements in the same
  linear order under a new shape (4.4, "reshapes directly ... without further
  permutation").
\<close>

definition reshape :: "nat list \<Rightarrow> 'a tensor \<Rightarrow> 'a tensor" where
  "reshape ds t = t\<lparr>dims := ds\<rparr>"

text \<open>
  Modelled from the spec: Eigen's \<open>a.contract(b, {IndexPair(1, 0)})\<close> on two
  matrices, the Contraction Stage (4.4): the ordinary matrix product, dimension 1 of
  \<open>a\<close> against dimension 0 of \<open>b\<close>, each entry accumulated from zero over the
  contracted index.
\<close>

definition contract :: "'a::{zero,plus,times} tensor \<Rightarrow> 'a tensor \<Rightarrow> 'a tensor" where
  "contract a b =
     (let R = dims a ! 0; K = dims a ! 1; M = dims b ! 1
      in \<lparr>dims = [R, M],
          data = map (\<lambda>idx. foldl (\<lambda>acc k. acc + data a ! ((idx div M) * K + k) *
                                                      data b ! (k * M + idx mod M))
                                     0 [0..<K])
                     [0..<R * M]\<rparr>)"

text \<open>
  Modelled from the spec: Eigen's assignment of an expression to a map over a buffer,
  which writes the expression's elements over the start of the mapped buffer.
\<close>

definition assign :: "'a list \<Rightarrow> 'a list \<Rightarrow> 'a list" where
  "assign buf vals = vals @ drop (length vals) buf"

text \<open>
  Modelled from the spec: \<open>arr = arr.colwise() + v\<close> on an
  \<open>EigenArrayMap(buf, rows, cols)\<close>, the Bias Broadcast-Add (4.5) as a per-column
  broadcast. The map is column-major: its coefficient \<open>(i, j)\<close> is
  \<open>buf ! (i + j * rows)\<close>, and \<open>v ! i\<close> is added to every coefficient of row
  \<open>i\<close>.
\<close>

definition colwise_add :: "nat \<Rightarrow> nat \<Rightarrow> 'a::plus list \<Rightarrow> 'a list \<Rightarrow> 'a list" where
  "colwise_add rows cols buf v =
     assign buf (map (\<lambda>k. let i = k mod rows; j = k div rows
                          in buf ! (i + j * rows) + v ! i) [0..<rows * cols])"

text \<open>
  Modelled from the spec: the matrix transpose of the Layout Transposer (4.2),
  \<open>dst = ConstEigenArrayMap(buf, rows, cols).transpose()\<close> for a column-major
  destination of \<open>cols\<close> rows and \<open>rows\<close> columns: coefficient \<open>(i, j)\<close> of the
  destination, stored at \<open>i + j * cols\<close>, is coefficient \<open>(j, i)\<close> of the source.
\<close>

definition transpose_array :: "nat \<Rightarrow> nat \<Rightarrow> 'a list \<Rightarrow> 'a list" where
  "transpose_array rows cols buf =
     map (\<lambda>k. let i = k mod cols; j = k div cols in buf ! (j + i * rows)) [0..<cols * rows]"

text \<open>
  Modelled from the spec: Eigen's patch extraction, the Patch Extractor (4.3).
  \<open>t.extract_image_patches(patch_rows, patch_cols, row_stride, col_stride,
  in_row_stride, in_col_stride, row_inflate_stride, col_inflate_stride, padding_top,
  padding_bottom, padding_left, padding_right, padding_value)\<close> on a row-major
  tensor of shape (batch, cols, rows, depth): Eigen's rows are the faster-varying image
  dimension, as the operator's comment on lines 53 to 55 says ("the definition of row
  and col actually correspond to width and height"). The result has shape
  (batch, patches, patch_cols, patch_rows, depth): a row per (batch, output row, output
  column) and a column per (kernel row, kernel column, channel), both in row-major order.
  The record holds the arguments of the call; the two inflation strides, which the
  operator passes as 1, space the samples of the input.
\<close>

record image_patch_op =
  patch_rows :: nat
  patch_cols :: nat
  row_strides :: nat
  col_strides :: nat
  in_row_strides :: nat
  in_col_strides :: nat
  row_inflate_strides :: nat
  col_inflate_strides :: nat
  padding_top :: nat
  padding_bottom :: nat
  padding_left :: nat
  padding_right :: nat

text \<open>
  Modelled from the spec: the number of patches along one image dimension, as the patch
  extraction itself counts them, from the size of the image dimension after inflation and
  of the patch after dilation. For positive strides it is the spec's
  \<open>floor((inDim + padBefore + padAfter - dilation*(kernel-1) - 1) / stride) + 1\<close>
  (lemmas \<open>outputRows_eq\<close> and \<open>outputCols_eq\<close>).
\<close>

definition ceil_div :: "int \<Rightarrow> int \<Rightarrow> int" where
  "ceil_div a b = - ((- a) div b)"

definition input_eff :: "nat \<Rightarrow> nat \<Rightarrow> int" where
  "input_eff n inflate = (int n - 1) * int inflate + 1"

definition patch_eff :: "nat \<Rightarrow> nat \<Rightarrow> int" where
  "patch_eff k in_stride = int k + (int k - 1) * (int in_stride - 1)"

definition outputRows :: "image_patch_op \<Rightarrow> nat list \<Rightarrow> nat" where
  "outputRows op ds =
     nat (ceil_div (input_eff (ds ! 2) (row_inflate_strides op) + int (padding_top op) +
                    int (padding_bottom op) - patch_eff (patch_rows op) (in_row_strides op) + 1)
                   (int (row_strides op)))"

definition outputCols :: "image_patch_op \<Rightarrow> nat list \<Rightarrow> nat" where
  "outputCols op ds =
     nat (ceil_div (input_eff (ds ! 1) (col_inflate_strides op) + int (padding_left op) +
                    int (padding_right op) - patch_eff (patch_cols op) (in_col_strides op) + 1)
                   (int (col_strides op)))"

definition patch_dims :: "image_patch_op \<Rightarrow> nat list \<Rightarrow> nat list" where
  "patch_dims op ds =
     [ds ! 0, outputRows op ds * outputCols op ds, patch_cols op, patch_rows op, ds ! 3]"

text \<open>
  Modelled from the spec: the bounds-checked gather of the Patch Extractor (4.3 and 9).
  The window of an output position starts at \<open>output_index * stride - pad_before\<close>
  and advances by the dilation per kernel step. The function gives the element of the
  input that linear index \<open>index\<close> of the patch tensor reads:
  \<open>None\<close> when the sampled coordinate lies in the padding (or between inflated
  samples), otherwise the linear index into the input buffer.
\<close>

definition patch_src :: "image_patch_op \<Rightarrow> nat list \<Rightarrow> nat \<Rightarrow> nat option" where
  "patch_src op ds index =
     (let inputDepth = ds ! 3; inputRows = ds ! 2; inputCols = ds ! 1;
          patchStride = patch_rows op * patch_cols op * inputDepth;
          otherStride = patchStride * (outputRows op ds * outputCols op ds);
          rowInputStride = inputDepth;
          colInputStride = inputDepth * inputRows;
          patchInputStride = inputDepth * inputRows * inputCols;
          patchIndex = index div patchStride;
          patchOffset = (index - patchIndex * patchStride) div inputDepth;
          otherIndex = index div otherStride;
          patch2DIndex = (index - otherIndex * otherStride) div patchStride;
          colIndex = patch2DIndex div outputRows op ds;
          colOffset = patchOffset div patch_rows op;
          inputCol = int colIndex * int (col_strides op) +
                     int colOffset * int (in_col_strides op) - int (padding_left op);
          origInputCol = (if col_inflate_strides op = 1 then inputCol
                          else if inputCol \<ge> 0 then inputCol div int (col_inflate_strides op)
                          else 0);
          rowIndex = patch2DIndex - colIndex * outputRows op ds;
          rowOffset = patchOffset - colOffset * patch_rows op;
          inputRow = int rowIndex * int (row_strides op) +
                     int rowOffset * int (in_row_strides op) - int (padding_top op);
          origInputRow = (if row_inflate_strides op = 1 then inputRow
                          else if inputRow \<ge> 0 then inputRow div int (row_inflate_strides op)
                          else 0);
          depth = index - (index div inputDepth) * inputDepth
      in if inputCol < 0 \<or> inputCol \<ge> input_eff inputCols (col_inflate_strides op) \<or>
            (col_inflate_strides op \<noteq> 1 \<and>
             inputCol \<noteq> origInputCol * int (col_inflate_strides op))
         then None
         else if inputRow < 0 \<or> inputRow \<ge> input_eff inputRows (row_inflate_strides op) \<or>
            (row_inflate_strides op \<noteq> 1 \<and>
             inputRow \<noteq> origInputRow * int (row_inflate_strides op))
         then None
         else Some (depth + nat origInputRow * rowInputStride +
                    nat origInputCol * colInputStride + otherIndex * patchInputStride))"

definition extract_image_patches ::
  "'a tensor \<Rightarrow> nat \<Rightarrow> nat \<Rightarrow> nat \<Rightarrow> nat \<Rightarrow> nat \<Rightarrow> nat \<Rightarrow> nat \<Rightarrow> nat \<Rightarrow>
     nat \<Rightarrow> nat \<Rightarrow> nat \<Rightarrow> nat \<Rightarrow> 'a \<Rightarrow> 'a tensor" where
  "extract_image_patches t p_rows p_cols row_stride col_stride in_row_stride in_col_stride
       row_inflate_stride col_inflate_stride pad_top pad_bottom pad_left pad_right
       padding_value =
     (let op = \<lparr>patch_rows = p_rows, patch_cols = p_cols,
                 row_strides = row_stride, col_strides = col_stride,
                 in_row_strides = in_row_stride, in_col_strides = in_col_stride,
                 row_inflate_strides = row_inflate_stride,
                 col_inflate_strides = col_inflate_stride,
                 padding_top = pad_top, padding_bottom = pad_bottom,
                 padding_left = pad_left, padding_right = pad_right\<rparr>;
          out_dims = patch_dims op (dims t)
      in \<lparr>dims = out_dims,
          data = map (\<lambda>index. case patch_src op (dims t) index of
                                  None \<Rightarrow> padding_value
                                | Some k \<Rightarrow> data t ! k)
                     [0..<prod_list out_dims]\<rparr>)"

section \<open>The channel-last entry point\<close>

text \<open>
  Lines 118 to 126 of \<open>conv_op_eigen.cc\<close>: the dimensions of the input are read
  (\<open>dim32\<close> fails for a dimension a tensor does not have), the filter and the bias
  are checked, and the output size is settled.
\<close>

definition check_NHWC :: "conv_params \<Rightarrow> 'a blobs \<Rightarrow> error option" where
  "check_NHWC p st =
     (let X = INPUT st; filter = FILTER st; bias = BIAS st; Y = OUTPUT st
      in if ndim X < 4 then Some InvalidShape
         else let C = dims X ! 3
         in if 4 \<noteq> ndim filter then Some InvalidShape
         else let M = dims filter ! 0
         in if dims filter ! 1 \<noteq> kernel_h p then Some InvalidShape
         else if dims filter ! 2 \<noteq> kernel_w p then Some InvalidShape
         else if dims filter ! 3 \<noteq> C then Some InvalidShape
         else if 1 \<noteq> ndim bias then Some InvalidShape
         else if dims bias ! 0 \<noteq> M then Some InvalidShape
         else SetOutputSize p NHWC X Y (dims filter ! 0))"

text \<open>
  Lines 127 to 133: the filter, supplied as (M, kernel_h, kernel_w, C), is transposed
  into the temporary \<open>temp_filter\<close>. Lines 142 to 143 and 159 to 161: the temporary
  is viewed as the tensor \<open>filter_tensor\<close> of shape (kernel_h, kernel_w, C, M) and
  reshaped to the matrix of the contraction.
\<close>

definition temp_filter :: "conv_params \<Rightarrow> 'a blobs \<Rightarrow> 'a list" where
  "temp_filter p st =
     (let C = dims (INPUT st) ! 3; M = dims (FILTER st) ! 0
      in transpose_array (kernel_h p * kernel_w p * C) M (data (FILTER st)))"

definition filter_matrix_NHWC :: "conv_params \<Rightarrow> 'a blobs \<Rightarrow> 'a tensor" where
  "filter_matrix_NHWC p st =
     (let C = dims (INPUT st) ! 3; M = dims (FILTER st) ! 0;
          filter_tensor = TensorMap (temp_filter p st) [kernel_h p, kernel_w p, C, M];
          kernel_dims = [kernel_h p * kernel_w p * C, M]
      in reshape kernel_dims filter_tensor)"

text \<open>
  Lines 138 to 186: the contraction written into the buffer of \<open>Y\<close>, before the bias
  is added.
\<close>

definition contract_NHWC :: "conv_params \<Rightarrow> 'a::{zero,plus,times} blobs \<Rightarrow> 'a list" where
  "contract_NHWC p st =
     (let X = INPUT st; filter = FILTER st; Y = OUTPUT st;
          N = dims X ! 0; H = dims X ! 1; W = dims X ! 2; C = dims X ! 3;
          M = dims filter ! 0;
          X_tensor = TensorMap (data X) [N, H, W, C];
          Y_tensor = TensorMap (data Y) [N, dims Y ! 1, dims Y ! 2, M];
          pre_contract_dims = [size_of Y div M, kernel_h p * kernel_w p * C]
      in assign (data Y)
           (data (reshape (dims Y_tensor)
              (contract
                 (reshape pre_contract_dims
                    (extract_image_patches X_tensor (kernel_w p) (kernel_h p)
                       (stride_w p) (stride_h p) (dilation_w p) (dilation_h p) 1 1
                       (pad_l p) (pad_r p) (pad_t p) (pad_b p) 0))
                 (filter_matrix_NHWC p st)))))"

text \<open>Lines 190 to 193: the bias is added through a column-major view of \<open>Y\<close>.\<close>

definition conv_NHWC :: "conv_params \<Rightarrow> 'a::{zero,plus,times} blobs \<Rightarrow> 'a list" where
  "conv_NHWC p st =
     (let M = dims (FILTER st) ! 0
      in colwise_add M (size_of (OUTPUT st) div M) (contract_NHWC p st) (data (BIAS st)))"

definition RunOnDeviceWithOrderNHWC ::
  "conv_params \<Rightarrow> 'a::{zero,plus,times} blobs \<Rightarrow> error option \<times> 'a blobs" where
  "RunOnDeviceWithOrderNHWC p st =
     (case check_NHWC p st of
        Some e \<Rightarrow> (Some e, st)
      | None \<Rightarrow>
          if dims (FILTER st) ! 0 = 0 then (Some DivideByZero, st)
          else (None, st\<lparr>OUTPUT := (OUTPUT st)\<lparr>data := conv_NHWC p st\<rparr>\<rparr>))"

section \<open>The channel-first entry point\<close>

text \<open>Lines 32 to 40.\<close>

definition check_NCHW :: "conv_params \<Rightarrow> 'a blobs \<Rightarrow> error option" where
  "check_NCHW p st =
     (let X = INPUT st; filter = FILTER st; bias = BIAS st; Y = OUTPUT st
      in if ndim X < 4 then Some InvalidShape
         else let C = dims X ! 1
         in if 4 \<noteq> ndim filter then Some InvalidShape
         else let M = dims filter ! 0
         in if dims filter ! 1 \<noteq> C then Some InvalidShape
         else if dims filter ! 2 \<noteq> kernel_h p then Some InvalidShape
         else if dims filter ! 3 \<noteq> kernel_w p then Some InvalidShape
         else if 1 \<noteq> ndim bias then Some InvalidShape
         else if dims bias ! 0 \<noteq> M then Some InvalidShape
         else SetOutputSize p NCHW X Y (dims filter ! 0))"

text \<open>
  Lines 41 to 51: filter and input are shuffled into channel-last order, the filter to
  (kernel_h, kernel_w, C, M) and the input to (N, H, W, C).
\<close>

definition filter_tensor_NCHW :: "conv_params \<Rightarrow> 'a blobs \<Rightarrow> 'a tensor" where
  "filter_tensor_NCHW p st =
     (let C = dims (INPUT st) ! 1; M = dims (FILTER st) ! 0;
          kernel_shuffles = [2, 3, 1, 0]
      in shuffle kernel_shuffles
           (TensorMap (data (FILTER st)) [M, C, kernel_h p, kernel_w p]))"

definition X_tensor_NCHW :: "'a blobs \<Rightarrow> 'a tensor" where
  "X_tensor_NCHW st =
     (let X = INPUT st;
          N = dims X ! 0; C = dims X ! 1; H = dims X ! 2; W = dims X ! 3;
          input_shuffles = [0, 2, 3, 1]
      in shuffle input_shuffles (TensorMap (data X) [N, C, H, W]))"

text \<open>Lines 61 to 94: the contraction fills the local channel-last tensor \<open>Y_tensor\<close>.\<close>

definition contract_NCHW :: "conv_params \<Rightarrow> 'a::{zero,plus,times} blobs \<Rightarrow> 'a tensor" where
  "contract_NCHW p st =
     (let Y = OUTPUT st;
          C = dims (INPUT st) ! 1;
          M = dims (FILTER st) ! 0;
          pre_contract_dims = [size_of Y div M, kernel_h p * kernel_w p * C];
          kernel_dims = [kernel_h p * kernel_w p * C, M];
          Y_tensor_dims = [dims Y ! 0, dims Y ! 2, dims Y ! 3, dims Y ! 1]
      in reshape Y_tensor_dims
           (contract
              (reshape pre_contract_dims
                 (extract_image_patches (X_tensor_NCHW st) (kernel_w p) (kernel_h p)
                    (stride_w p) (stride_h p) (dilation_w p) (dilation_h p) 1 1
                    (pad_l p) (pad_r p) (pad_t p) (pad_b p) 0))
              (reshape kernel_dims (filter_tensor_NCHW p st))))"

text \<open>Lines 98 to 101: the bias is added to \<open>Y_tensor\<close> through a column-major view.\<close>

definition biased_NCHW :: "conv_params \<Rightarrow> 'a::{zero,plus,times} blobs \<Rightarrow> 'a tensor" where
  "biased_NCHW p st =
     (let Y = OUTPUT st;
          M = dims (FILTER st) ! 0;
          Y_tensor = contract_NCHW p st
      in Y_tensor\<lparr>data := colwise_add M (size_of Y div M) (data Y_tensor) (data (BIAS st))\<rparr>)"

text \<open>
  Lines 104 to 108: \<open>Y_tensor\<close>, shuffled back to channel-first order, is written into
  the buffer of \<open>Y\<close>.
\<close>

definition conv_NCHW :: "conv_params \<Rightarrow> 'a::{zero,plus,times} blobs \<Rightarrow> 'a list" where
  "conv_NCHW p st =
     (let output_shuffles = [0, 3, 1, 2]
      in assign (data (OUTPUT st)) (data (shuffle output_shuffles (biased_NCHW p st))))"

definition RunOnDeviceWithOrderNCHW ::
  "conv_params \<Rightarrow> 'a::{zero,plus,times} blobs \<Rightarrow> error option \<times> 'a blobs" where
  "RunOnDeviceWithOrderNCHW p st =
     (case check_NCHW p st of
        Some e \<Rightarrow> (Some e, st)
      | None \<Rightarrow>
          if dims (FILTER st) ! 0 = 0 then (Some DivideByZero, st)
          else (None, st\<lparr>OUTPUT := (OUTPUT st)\<lparr>data := conv_NCHW p st\<rparr>\<rparr>))"

section \<open>Reading a tensor by coordinates\<close>

text \<open>
  The element of a four-dimensional row-major tensor at a multi-index, and the reading
  the specification gives for a sampled input position: the element when the position
  lies inside the image, zero otherwise.
\<close>

definition at4 :: "'a tensor \<Rightarrow> nat \<Rightarrow> nat \<Rightarrow> nat \<Rightarrow> nat \<Rightarrow> 'a" where
  "at4 t i0 i1 i2 i3 =
     data t ! (((i0 * (dims t ! 1) + i1) * (dims t ! 2) + i2) * (dims t ! 3) + i3)"

definition zero_fill_NHWC :: "'a::zero tensor \<Rightarrow> nat \<Rightarrow> int \<Rightarrow> int \<Rightarrow> nat \<Rightarrow> 'a" where
  "zero_fill_NHWC X n h w c =
     (if 0 \<le> h \<and> h < int (dims X ! 1) \<and> 0 \<le> w \<and> w < int (dims X ! 2)
      then at4 X n (nat h) (nat w) c else 0)"

definition zero_fill_NCHW :: "'a::zero tensor \<Rightarrow> nat \<Rightarrow> nat \<Rightarrow> int \<Rightarrow> int \<Rightarrow> 'a" where
  "zero_fill_NCHW X n c h w =
     (if 0 \<le> h \<and> h < int (dims X ! 2) \<and> 0 \<le> w \<and> w < int (dims X ! 3)
      then at4 X n c (nat h) (nat w) else 0)"

section \<open>Example invocations\<close>

text \<open>
  A 2 x 3 image with two channels, two output channels, a 2 x 1 kernel, stride 1 down and
  2 across, one row of padding on top and one column on the right: the output is 2 x 2.
  The same call is given in channel-last and in channel-first layout.
\<close>

definition ex_params :: conv_params where
  "ex_params = \<lparr>kernel_h = 2, kernel_w = 1, stride_h = 1, stride_w = 2,
                 dilation_h = 1, dilation_w = 1, pad_t = 1, pad_l = 0, pad_b = 0, pad_r = 1\<rparr>"

definition ex_bias :: "int tensor" where
  "ex_bias = \<lparr>dims = [2], data = [0, 5]\<rparr>"

definition ex_NHWC :: "int blobs" where
  "ex_NHWC = \<lparr>INPUT = \<lparr>dims = [1, 2, 3, 2], data = [1, 2, 3, 4, 5, 6, 7, 8, 9, 10, 11, 12]\<rparr>,
               FILTER = \<lparr>dims = [2, 2, 1, 2], data = [1, 10, 100, 1000, 2, 20, 200, 2000]\<rparr>,
               BIAS = ex_bias,
               OUTPUT = \<lparr>dims = [1, 2, 2, 2], data = [0, 0, 0, 0, 0, 0, 0, 0]\<rparr>\<rparr>"

definition ex_NCHW :: "int blobs" where
  "ex_NCHW = \<lparr>INPUT = \<lparr>dims = [1, 2, 2, 3], data = [1, 3, 5, 7, 9, 11, 2, 4, 6, 8, 10, 12]\<rparr>,
               FILTER = \<lparr>dims = [2, 2, 2, 1], data = [1, 100, 10, 1000, 2, 200, 20, 2000]\<rparr>,
               BIAS = ex_bias,
               OUTPUT = \<lparr>dims = [1, 2, 2, 2], data = [0, 0, 0, 0, 0, 0, 0, 0]\<rparr>\<rparr>"

text \<open>
  The padding example of the spec: one batch, one channel, a 3 x 3 image, a 3 x 3 kernel of
  ones, stride 1, dilation 1 and padding 1 on every side.
\<close>

definition ex_params_3x3 :: conv_params where
  "ex_params_3x3 = \<lparr>kernel_h = 3, kernel_w = 3, stride_h = 1, stride_w = 1,
                     dilation_h = 1, dilation_w = 1, pad_t = 1, pad_l = 1, pad_b = 1, pad_r = 1\<rparr>"

definition ex_3x3_NHWC :: "int blobs" where
  "ex_3x3_NHWC =
     \<lparr>INPUT = \<lparr>dims = [1, 3, 3, 1], data = [1, 2, 3, 4, 5, 6, 7, 8, 9]\<rparr>,
      FILTER = \<lparr>dims = [1, 3, 3, 1], data = [1, 1, 1, 1, 1, 1, 1, 1, 1]\<rparr>,
      BIAS = \<lparr>dims = [1], data = [0]\<rparr>,
      OUTPUT = \<lparr>dims = [1, 3, 3, 1], data = [0, 0, 0, 0, 0, 0, 0, 0, 0]\<rparr>\<rparr>"

definition ex_3x3_NCHW :: "int blobs" where
  "ex_3x3_NCHW =
     \<lparr>INPUT = \<lparr>dims = [1, 1, 3, 3], data = [1, 2, 3, 4, 5, 6, 7, 8, 9]\<rparr>,
      FILTER = \<lparr>dims = [1, 1, 3, 3], data = [1, 1, 1, 1, 1, 1, 1, 1, 1]\<rparr>,
      BIAS = \<lparr>dims = [1], data = [0]\<rparr>,
      OUTPUT = \<lparr>dims = [1, 1, 3, 3], data = [0, 0, 0, 0, 0, 0, 0, 0, 0]\<rparr>\<rparr>"

text \<open>The same calls with a filter of three input channels where the input has two.\<close>

definition ex_NHWC_bad_channels :: "int blobs" where
  "ex_NHWC_bad_channels =
     ex_NHWC\<lparr>FILTER := \<lparr>dims = [2, 2, 1, 3], data = [1, 2, 3, 4, 5, 6, 7, 8, 9, 10, 11, 12]\<rparr>\<rparr>"

definition ex_NCHW_bad_channels :: "int blobs" where
  "ex_NCHW_bad_channels =
     ex_NCHW\<lparr>FILTER := \<lparr>dims = [2, 3, 2, 1], data = [1, 2, 3, 4, 5, 6, 7, 8, 9, 10, 11, 12]\<rparr>\<rparr>"

text \<open>The same calls for an operator configured with a 3 x 1 kernel.\<close>

definition ex_params_kernel3 :: conv_params where
  "ex_params_kernel3 = ex_params\<lparr>kernel_h := 3\<rparr>"

text \<open>The same calls with an output buffer of three rows where the arithmetic gives two.\<close>

definition ex_NHWC_bad_output :: "int blobs" where
  "ex_NHWC_bad_output =
     ex_NHWC\<lparr>OUTPUT := \<lparr>dims = [1, 3, 2, 2], data = [0, 0, 0, 0, 0, 0, 0, 0, 0, 0, 0, 0]\<rparr>\<rparr>"

definition ex_NCHW_bad_output :: "int blobs" where
  "ex_NCHW_bad_output =
     ex_NCHW\<lparr>OUTPUT := \<lparr>dims = [1, 2, 3, 2], data = [0, 0, 0, 0, 0, 0, 0, 0, 0, 0, 0, 0]\<rparr>\<rparr>"

text \<open>The parameters again, with more padding on every side than the image is large.\<close>

definition ex_params_wide_pad :: conv_params where
  "ex_params_wide_pad = ex_params\<lparr>pad_t := 5, pad_l := 7, pad_b := 5, pad_r := 7\<rparr>"

section \<open>Index arithmetic of the row-major layouts\<close>

lemma lin_bound:
  fixes a b :: nat
  assumes "a < A" "b < B"
  shows "a * B + b < A * B"
proof -
  have "a * B + b < a * B + B" using assms by simp
  also have "\<dots> = Suc a * B" by simp
  also have "\<dots> \<le> A * B" using assms by (intro mult_le_mono1) simp
  finally show ?thesis .
qed

lemma div_lin: "b < B \<Longrightarrow> (a * B + b) div B = (a::nat)"
  by simp

lemma mod_lin: "b < B \<Longrightarrow> (a * B + b) mod B = (b::nat)"
  by simp

lemma unravel4:
  assumes "i1 < d1" "i2 < d2" "i3 < d3"
  shows "unravel (strides [d0, d1, d2, d3]) (((i0 * d1 + i1) * d2 + i2) * d3 + i3) = [i0, i1, i2, i3]"
proof -
  let ?k = "((i0 * d1 + i1) * d2 + i2) * d3 + i3"
  have b23: "i2 * d3 + i3 < d2 * d3" using assms by (intro lin_bound)
  have b123: "(i1 * d2 + i2) * d3 + i3 < d1 * (d2 * d3)"
    using lin_bound[OF lin_bound[OF assms(1) assms(2)] assms(3)] by (simp add: mult.assoc)
  have k0: "?k = i0 * (d1 * (d2 * d3)) + ((i1 * d2 + i2) * d3 + i3)" by (simp add: algebra_simps)
  have k1: "(i1 * d2 + i2) * d3 + i3 = i1 * (d2 * d3) + (i2 * d3 + i3)" by (simp add: algebra_simps)
  have e0: "?k div (d1 * (d2 * d3)) = i0" unfolding k0 using b123 by (rule div_lin)
  have m0: "?k mod (d1 * (d2 * d3)) = (i1 * d2 + i2) * d3 + i3" unfolding k0 using b123 by (rule mod_lin)
  have e1: "((i1 * d2 + i2) * d3 + i3) div (d2 * d3) = i1" unfolding k1 using b23 by (rule div_lin)
  have m1: "((i1 * d2 + i2) * d3 + i3) mod (d2 * d3) = i2 * d3 + i3" unfolding k1 using b23 by (rule mod_lin)
  have e2: "(i2 * d3 + i3) div d3 = i2" "(i2 * d3 + i3) mod d3 = i3" using assms by simp_all
  have st: "strides [d0, d1, d2, d3] = [d1 * (d2 * d3), d2 * d3, d3, 1]" by simp
  show ?thesis
    unfolding st by (simp only: unravel.simps e0 m0 e1 m1 e2) simp
qed

lemma size4: "i0 < d0 \<Longrightarrow> i1 < d1 \<Longrightarrow> i2 < d2 \<Longrightarrow> i3 < d3 \<Longrightarrow>
   ((i0 * d1 + i1) * d2 + i2) * d3 + i3 < d0 * d1 * d2 * (d3::nat)"
  by (intro lin_bound)

lemma decode2:
  fixes k :: nat
  assumes "k < a * b"
  obtains q r where "q < a" "r < b" "k = q * b + r"
proof -
  have b0: "0 < b" using assms by (cases b) auto
  have "k div b < a" using assms by (rule less_mult_imp_div_less)
  moreover have "k mod b < b" using b0 by simp
  moreover have "k = k div b * b + k mod b" by simp
  ultimately show ?thesis by (rule that)
qed

lemma decode4:
  fixes k :: nat
  assumes "k < d0 * d1 * d2 * d3"
  obtains i0 i1 i2 i3 where "i0 < d0" "i1 < d1" "i2 < d2" "i3 < d3"
    "k = ((i0 * d1 + i1) * d2 + i2) * d3 + i3"
proof -
  from assms obtain q2 i3 where a: "q2 < d0 * d1 * d2" "i3 < d3" "k = q2 * d3 + i3"
    by (rule decode2)
  from a(1) obtain q1 i2 where b: "q1 < d0 * d1" "i2 < d2" "q2 = q1 * d2 + i2"
    by (rule decode2)
  from b(1) obtain i0 i1 where c: "i0 < d0" "i1 < d1" "q1 = i0 * d1 + i1"
    by (rule decode2)
  show ?thesis
    using c(1,2) b(2) a(2) by (rule that) (simp add: a(3) b(3) c(3))
qed

lemma shuffle_dims: "dims (shuffle perm t) = map (\<lambda>i. dims t ! i) perm"
  by (simp add: shuffle_def Let_def)

lemma shuffle_length: "length (data (shuffle perm t)) = prod_list (map (\<lambda>i. dims t ! i) perm)"
  by (simp add: shuffle_def Let_def)

lemma shuffle4_nth:
  assumes "dims t = [e0, e1, e2, e3]"
      and "[e0, e1, e2, e3] ! q0 = d0" "[e0, e1, e2, e3] ! q1 = d1" "[e0, e1, e2, e3] ! q2 = d2" "[e0, e1, e2, e3] ! q3 = d3"
      and "i0 < d0" "i1 < d1" "i2 < d2" "i3 < d3"
  shows "data (shuffle [q0, q1, q2, q3] t) ! (((i0 * d1 + i1) * d2 + i2) * d3 + i3) =
         data t ! (i0 * (strides [e0, e1, e2, e3] ! q0) + i1 * (strides [e0, e1, e2, e3] ! q1) +
                   i2 * (strides [e0, e1, e2, e3] ! q2) + i3 * (strides [e0, e1, e2, e3] ! q3))"
proof -
  let ?k = "((i0 * d1 + i1) * d2 + i2) * d3 + i3"
  have od: "map (\<lambda>i. dims t ! i) [q0, q1, q2, q3] = [d0, d1, d2, d3]"
    using assms(1-5) by simp
  have lt: "?k < prod_list [d0, d1, d2, d3]"
    using size4[OF assms(6-9)] by (simp add: mult.assoc)
  have un: "unravel (strides [d0, d1, d2, d3]) ?k = [i0, i1, i2, i3]"
    using assms(7-9) by (rule unravel4)
  have "data (shuffle [q0, q1, q2, q3] t) ! ?k =
        data t ! sum_list (map2 (\<lambda>idx i. idx * (strides (dims t) ! i))
                     (unravel (strides [d0, d1, d2, d3]) ?k) [q0, q1, q2, q3])"
    unfolding shuffle_def Let_def od using lt by simp
  then show ?thesis
    unfolding un assms(1) by (simp add: add.assoc)
qed

lemma sum_list_upt: "sum_list (map f [0..<n]) = (\<Sum>k<n. f k)"
  by (simp add: interv_sum_list_conv_sum_set_nat atLeast0LessThan)

lemma sum_group2:
  fixes f :: "nat \<Rightarrow> 'a::comm_monoid_add"
  shows "(\<Sum>k<a * b. f k) = (\<Sum>i<a. \<Sum>j<b. f (i * b + j))"
proof -
  have "(\<Sum>i<a. \<Sum>j<b. f (i * b + j)) = (\<Sum>i<a. sum f {i * b..<i * b + b})"
  proof (rule sum.cong[OF refl])
    fix i
    have "sum f {i * b..<i * b + b} = sum f {0 + i * b..<b + i * b}" by (simp add: add.commute)
    also have "\<dots> = (\<Sum>j = 0..<b. f (j + i * b))" by (rule sum.shift_bounds_nat_ivl)
    finally show "(\<Sum>j<b. f (i * b + j)) = sum f {i * b..<i * b + b}"
      by (simp add: atLeast0LessThan add.commute)
  qed
  also have "\<dots> = (\<Sum>k<a * b. f k)" by (rule sum.nat_group)
  finally show ?thesis by simp
qed

lemma sum_group3:
  fixes f :: "nat \<Rightarrow> 'a::comm_monoid_add"
  shows "(\<Sum>k<a * b * c. f k) = (\<Sum>i<a. \<Sum>j<b. \<Sum>l<c. f ((i * b + j) * c + l))"
proof -
  have "(\<Sum>k<a * b * c. f k) = (\<Sum>q<a * b. \<Sum>l<c. f (q * c + l))" by (rule sum_group2)
  also have "\<dots> = (\<Sum>i<a. \<Sum>j<b. \<Sum>l<c. f ((i * b + j) * c + l))" by (rule sum_group2)
  finally show ?thesis .
qed

lemma contract_dims: "dims (contract a b) = [dims a ! 0, dims b ! 1]"
  by (simp add: contract_def Let_def)

lemma foldl_add_sum_list:
  fixes f :: "nat \<Rightarrow> 'a::monoid_add"
  shows "foldl (\<lambda>acc k. acc + f k) z xs = z + sum_list (map f xs)"
  by (induction xs arbitrary: z) (simp_all add: add.assoc)

lemma contract_nth:
  fixes a b :: "'a::{comm_monoid_add,times} tensor"
  assumes "r < dims a ! 0" "m < dims b ! 1"
  shows "data (contract a b) ! (r * (dims b ! 1) + m) =
         (\<Sum>k<dims a ! 1. data a ! (r * (dims a ! 1) + k) * data b ! (k * (dims b ! 1) + m))"
proof -
  have lt: "r * (dims b ! 1) + m < dims a ! 0 * (dims b ! 1)" using assms by (rule lin_bound)
  show ?thesis
    unfolding contract_def Let_def using lt assms(2)
    by (simp add: foldl_add_sum_list sum_list_upt)
qed

lemma ceil_floor:
  fixes x s :: int
  assumes "0 < s"
  shows "ceil_div (x + 1) s = x div s + 1"
proof -
  have "- (x + 1) = s * (- (x div s) - 1) + (s - 1 - x mod s)"
  proof -
    have "x = s * (x div s) + x mod s" by simp
    then have "- (x + 1) = - (s * (x div s) + x mod s) - 1" by simp
    also have "\<dots> = s * (- (x div s) - 1) + (s - 1 - x mod s)" by (simp add: algebra_simps)
    finally show ?thesis .
  qed
  moreover have "0 \<le> s - 1 - x mod s" "s - 1 - x mod s < s"
    using assms pos_mod_bound[OF assms, of x] pos_mod_sign[OF assms, of x] by simp_all
  ultimately have "(- (x + 1)) div s = - (x div s) - 1"
    by (metis int_div_pos_eq)
  then show ?thesis by (simp add: ceil_div_def)
qed

lemma colwise_add_nth:
  assumes "k < rows * cols"
  shows "colwise_add rows cols buf v ! k = buf ! k + v ! (k mod rows)"
proof -
  have "k mod rows + k div rows * rows = k" by simp
  then show ?thesis
    using assms by (simp add: colwise_add_def assign_def nth_append Let_def)
qed

lemma colwise_add_length:
  "rows * cols \<le> length buf \<Longrightarrow> length (colwise_add rows cols buf v) = length buf"
  by (simp add: colwise_add_def assign_def)

lemma transpose_array_nth:
  assumes "k < rows" "m < cols"
  shows "transpose_array rows cols buf ! (k * cols + m) = buf ! (m * rows + k)"
proof -
  have lt: "k * cols + m < cols * rows" using lin_bound[OF assms] by (simp add: mult.commute)
  show ?thesis
    using lt assms(2) by (simp add: transpose_array_def Let_def add.commute)
qed

lemma transpose_array_length: "length (transpose_array rows cols buf) = cols * rows"
  by (simp add: transpose_array_def)

section \<open>Decoding an index of the patch tensor\<close>

lemma patch_src_decode:
  assumes inflate: "row_inflate_strides op = 1" "col_inflate_strides op = 1"
      and oR: "outputRows op [N, IC, IR, D] = oR"
      and oC: "outputCols op [N, IC, IR, D] = oC"
      and bounds: "pc < oC" "pr < oR" "ci < patch_cols op" "ri < patch_rows op" "d < D"
  shows "patch_src op [N, IC, IR, D]
           (((n * (oR * oC) + (pc * oR + pr)) * (patch_rows op * patch_cols op * D)) +
            ((ci * patch_rows op + ri) * D + d)) =
         (let inputCol = int pc * int (col_strides op) + int ci * int (in_col_strides op) -
                         int (padding_left op);
              inputRow = int pr * int (row_strides op) + int ri * int (in_row_strides op) -
                         int (padding_top op)
          in if 0 \<le> inputCol \<and> inputCol < int IC \<and> 0 \<le> inputRow \<and> inputRow < int IR
             then Some (((n * IC + nat inputCol) * IR + nat inputRow) * D + d) else None)"
proof -
  define K where "K = patch_rows op * patch_cols op * D"
  define P where "P = oR * oC"
  define q where "q = pc * oR + pr"
  define off where "off = (ci * patch_rows op + ri) * D + d"
  define index where "index = (n * P + q) * K + off"
  have offK: "off < K"
    using lin_bound[OF lin_bound[OF bounds(3) bounds(4)] bounds(5)]
    by (simp add: off_def K_def mult.commute)
  have qP: "q < P"
    using lin_bound[OF bounds(1) bounds(2)] by (simp add: q_def P_def mult.commute)
  have pI: "index div K = n * P + q" unfolding index_def using offK by (rule div_lin)
  have pM: "index - (n * P + q) * K = off" by (simp add: index_def)
  have pO: "off div D = ci * patch_rows op + ri" unfolding off_def using bounds(5) by (rule div_lin)
  have qK: "q * K + off < P * K" using qP offK by (rule lin_bound)
  have idx2: "index = n * (K * P) + (q * K + off)" by (simp add: index_def algebra_simps)
  have qK': "q * K + off < K * P" using qK by (simp add: mult.commute)
  have oI: "index div (K * P) = n" unfolding idx2 using qK' by (rule div_lin)
  have oM: "index - n * (K * P) = q * K + off" by (simp add: idx2)
  have p2: "(q * K + off) div K = q" using offK by (rule div_lin)
  have cI: "q div oR = pc" unfolding q_def using bounds(2) by (rule div_lin)
  have rI: "q - pc * oR = pr" by (simp add: q_def)
  have cO: "(ci * patch_rows op + ri) div patch_rows op = ci" using bounds(4) by (rule div_lin)
  have rO: "ci * patch_rows op + ri - ci * patch_rows op = ri" by simp
  have idx3: "index = ((n * P + q) * (patch_rows op * patch_cols op) + (ci * patch_rows op + ri)) * D + d"
    by (simp add: index_def K_def off_def algebra_simps)
  have dI: "index div D = (n * P + q) * (patch_rows op * patch_cols op) + (ci * patch_rows op + ri)"
    unfolding idx3 using bounds(5) by (rule div_lin)
  have dM: "index - ((n * P + q) * (patch_rows op * patch_cols op) + (ci * patch_rows op + ri)) * D = d"
    by (simp add: idx3)
  have goal_index: "((n * (oR * oC) + (pc * oR + pr)) * (patch_rows op * patch_cols op * D)) +
            ((ci * patch_rows op + ri) * D + d) = index"
    by (simp add: index_def P_def q_def K_def off_def)
  have "patch_src op [N, IC, IR, D] index = 
         (let inputCol = int pc * int (col_strides op) + int ci * int (in_col_strides op) -
                         int (padding_left op);
              inputRow = int pr * int (row_strides op) + int ri * int (in_row_strides op) -
                         int (padding_top op)
          in if 0 \<le> inputCol \<and> inputCol < int IC \<and> 0 \<le> inputRow \<and> inputRow < int IR
             then Some (((n * IC + nat inputCol) * IR + nat inputRow) * D + d) else None)"
    apply (simp add: patch_src_def Let_def oR oC inflate input_eff_def
          pI[unfolded K_def P_def] pM[unfolded K_def P_def] pO oI[unfolded K_def P_def]
          oM[unfolded K_def P_def] p2[unfolded K_def P_def] cI rI cO rO dI[unfolded K_def P_def]
          dM[unfolded K_def P_def])
    apply (simp add: algebra_simps)
    done
  then show ?thesis unfolding goal_index .
qed

lemma outputRows_eq:
  assumes "0 < row_strides op" "row_inflate_strides op = 1"
      and "int oR = out_dim IR (patch_rows op) (row_strides op) (in_row_strides op)
                      (padding_top op) (padding_bottom op)"
  shows "outputRows op [N, IC, IR, D] = oR"
proof -
  let ?x = "int IR + int (padding_top op) + int (padding_bottom op) -
            int (in_row_strides op) * (int (patch_rows op) - 1) - 1"
  have arg: "input_eff ([N, IC, IR, D] ! 2) (row_inflate_strides op) + int (padding_top op) + int (padding_bottom op) -
        patch_eff (patch_rows op) (in_row_strides op) + 1 = ?x + 1"
    by (simp add: input_eff_def patch_eff_def assms(2) algebra_simps)
  have "ceil_div (?x + 1) (int (row_strides op)) = ?x div int (row_strides op) + 1"
    using assms(1) by (intro ceil_floor) simp
  also have "\<dots> = int oR" using assms(3) by (simp add: out_dim_def)
  finally have e: "ceil_div (?x + 1) (int (row_strides op)) = int oR" .
  show ?thesis
    unfolding outputRows_def arg e by simp
qed

lemma outputCols_eq:
  assumes "0 < col_strides op" "col_inflate_strides op = 1"
      and "int oC = out_dim IC (patch_cols op) (col_strides op) (in_col_strides op)
                      (padding_left op) (padding_right op)"
  shows "outputCols op [N, IC, IR, D] = oC"
proof -
  let ?x = "int IC + int (padding_left op) + int (padding_right op) -
            int (in_col_strides op) * (int (patch_cols op) - 1) - 1"
  have arg: "input_eff ([N, IC, IR, D] ! 1) (col_inflate_strides op) + int (padding_left op) + int (padding_right op) -
        patch_eff (patch_cols op) (in_col_strides op) + 1 = ?x + 1"
    by (simp add: input_eff_def patch_eff_def assms(2) algebra_simps)
  have "ceil_div (?x + 1) (int (col_strides op)) = ?x div int (col_strides op) + 1"
    using assms(1) by (intro ceil_floor) simp
  also have "\<dots> = int oC" using assms(3) by (simp add: out_dim_def)
  finally have e: "ceil_div (?x + 1) (int (col_strides op)) = int oC" .
  show ?thesis
    unfolding outputCols_def arg e by simp
qed

lemma size5:
  fixes i0 :: nat
  assumes "i0 < d0" "i1 < d1" "i2 < d2" "i3 < d3" "i4 < d4"
  shows "(((i0 * d1 + i1) * d2 + i2) * d3 + i3) * d4 + i4 < d0 * d1 * d2 * d3 * d4"
  using assms by (intro lin_bound)

lemma patches_nth:
  fixes Xt :: "'a::zero tensor"
  assumes dX: "dims Xt = [N, H, W, C]"
      and pos: "0 < sh" "0 < sw"
      and oH: "int oH = out_dim H kh sh dh pt pb"
      and oW: "int oW = out_dim W kw sw dw pl pr"
      and bounds: "n < N" "y < oH" "x < oW" "i < kh" "j < kw" "c < C"
  shows "data (extract_image_patches Xt kw kh sw sh dw dh 1 1 pl pr pt pb 0) !
           (((n * oH + y) * oW + x) * (kh * kw * C) + ((i * kw + j) * C + c)) =
         zero_fill_NHWC Xt n (int y * int sh - int pt + int i * int dh)
                             (int x * int sw - int pl + int j * int dw) c"
proof -
  define op where "op = \<lparr>patch_rows = kw, patch_cols = kh,
                 row_strides = sw, col_strides = sh,
                 in_row_strides = dw, in_col_strides = dh,
                 row_inflate_strides = 1,
                 col_inflate_strides = 1,
                 padding_top = pl, padding_bottom = pr,
                 padding_left = pt, padding_right = pb\<rparr>"
  let ?idx = "((n * oH + y) * oW + x) * (kh * kw * C) + ((i * kw + j) * C + c)"
  have oR: "outputRows op [N, H, W, C] = oW"
    by (rule outputRows_eq) (use pos oW in \<open>simp_all add: op_def\<close>)
  have oC: "outputCols op [N, H, W, C] = oH"
    by (rule outputCols_eq) (use pos oH in \<open>simp_all add: op_def\<close>)
  have pd: "patch_dims op [N, H, W, C] = [N, oW * oH, kh, kw, C]"
    by (simp add: patch_dims_def oR oC) (simp add: op_def)
  have idx: "?idx = (((n * (oW * oH) + (y * oW + x)) * kh + i) * kw + j) * C + c"
    by (simp add: algebra_simps)
  have yx: "y * oW + x < oW * oH"
    using lin_bound[OF bounds(2) bounds(3)] by (simp add: mult.commute)
  have lt: "?idx < prod_list [N, oW * oH, kh, kw, C]"
    unfolding idx using size5[OF bounds(1) yx bounds(4) bounds(5) bounds(6)]
    by (simp add: mult.assoc)
  have idx': "?idx = (n * (oW * oH) + (y * oW + x)) * (patch_rows op * patch_cols op * C) +
                ((i * patch_rows op + j) * C + c)"
    by (simp add: op_def algebra_simps)
  have src: "patch_src op [N, H, W, C] ?idx =
         (let inputCol = int y * int (col_strides op) + int i * int (in_col_strides op) -
                         int (padding_left op);
              inputRow = int x * int (row_strides op) + int j * int (in_row_strides op) -
                         int (padding_top op)
          in if 0 \<le> inputCol \<and> inputCol < int H \<and> 0 \<le> inputRow \<and> inputRow < int W
             then Some (((n * H + nat inputCol) * W + nat inputRow) * C + c) else None)"
    unfolding idx'
    by (rule patch_src_decode[OF _ _ oR oC]) (use bounds in \<open>simp_all add: op_def\<close>)
  have "data (extract_image_patches Xt kw kh sw sh dw dh 1 1 pl pr pt pb 0) ! ?idx =
        (case patch_src op [N, H, W, C] ?idx of None \<Rightarrow> 0 | Some k \<Rightarrow> data Xt ! k)"
    unfolding extract_image_patches_def Let_def op_def[symmetric] dX pd
    using lt by simp
  also have "\<dots> = zero_fill_NHWC Xt n (int y * int sh - int pt + int i * int dh)
                             (int x * int sw - int pl + int j * int dw) c"
    unfolding src
    by (simp add: Let_def zero_fill_NHWC_def at4_def dX op_def algebra_simps)
  finally show ?thesis .
qed

lemma pipeline_nth:
  fixes Xt :: "'a::{comm_monoid_add,times} tensor"
  assumes dX: "dims Xt = [N, H, W, C]"
      and pos: "0 < sh" "0 < sw"
      and oH: "int oH = out_dim H kh sh dh pt pb"
      and oW: "int oW = out_dim W kw sw dw pl pr"
      and M: "dims Fm ! 1 = M"
      and R: "(n * oH + y) * oW + x < R"
      and bounds: "n < N" "y < oH" "x < oW" "m < M"
  shows "data (contract (reshape [R, kh * kw * C]
                 (extract_image_patches Xt kw kh sw sh dw dh 1 1 pl pr pt pb 0)) Fm) !
           (((n * oH + y) * oW + x) * M + m) =
         (\<Sum>i<kh. \<Sum>j<kw. \<Sum>c<C.
            zero_fill_NHWC Xt n (int y * int sh - int pt + int i * int dh)
                                (int x * int sw - int pl + int j * int dw) c *
            data Fm ! (((i * kw + j) * C + c) * M + m))"
proof -
  let ?P = "extract_image_patches Xt kw kh sw sh dw dh 1 1 pl pr pt pb 0"
  let ?A = "reshape [R, kh * kw * C] ?P"
  let ?r = "(n * oH + y) * oW + x"
  have dA: "dims ?A ! 0 = R" "dims ?A ! 1 = kh * kw * C" "data ?A = data ?P"
    by (simp_all add: reshape_def)
  have "data (contract ?A Fm) ! (?r * M + m) =
        (\<Sum>k<kh * kw * C. data ?P ! (?r * (kh * kw * C) + k) * data Fm ! (k * M + m))"
    using contract_nth[of ?r ?A m Fm] R bounds(4) unfolding dA M by simp
  also have "\<dots> = (\<Sum>i<kh. \<Sum>j<kw. \<Sum>c<C.
        data ?P ! (?r * (kh * kw * C) + ((i * kw + j) * C + c)) *
        data Fm ! (((i * kw + j) * C + c) * M + m))"
    by (rule sum_group3)
  also have "\<dots> = (\<Sum>i<kh. \<Sum>j<kw. \<Sum>c<C.
            zero_fill_NHWC Xt n (int y * int sh - int pt + int i * int dh)
                                (int x * int sw - int pl + int j * int dw) c *
            data Fm ! (((i * kw + j) * C + c) * M + m))"
  proof (intro sum.cong refl)
    fix i j c
    assume "i \<in> {..<kh}" "j \<in> {..<kw}" "c \<in> {..<C}"
    then have b: "i < kh" "j < kw" "c < C" by simp_all
    show "data ?P ! (?r * (kh * kw * C) + ((i * kw + j) * C + c)) *
          data Fm ! (((i * kw + j) * C + c) * M + m) =
          zero_fill_NHWC Xt n (int y * int sh - int pt + int i * int dh)
                                (int x * int sw - int pl + int j * int dw) c *
          data Fm ! (((i * kw + j) * C + c) * M + m)"
      using patches_nth[OF dX pos oH oW bounds(1-3) b] by simp
  qed
  finally show ?thesis .
qed

lemma list4: "length xs = 4 \<Longrightarrow> xs = [xs ! 0, xs ! 1, xs ! 2, xs ! 3]"
  by (cases xs; cases "tl xs"; cases "tl (tl xs)"; cases "tl (tl (tl xs))") auto

lemma list1: "length xs = Suc 0 \<Longrightarrow> xs = [xs ! 0]"
  by (cases xs) auto

lemma check_NHWC_NoneD:
  assumes "check_NHWC p st = None" "ndim (INPUT st) = 4"
  obtains N H W C M oH oW where
    "dims (INPUT st) = [N, H, W, C]"
    "dims (FILTER st) = [M, kernel_h p, kernel_w p, C]"
    "dims (BIAS st) = [M]"
    "dims (OUTPUT st) = [N, oH, oW, M]"
    "int oH = out_dim H (kernel_h p) (stride_h p) (dilation_h p) (pad_t p) (pad_b p)"
    "int oW = out_dim W (kernel_w p) (stride_w p) (dilation_w p) (pad_l p) (pad_r p)"
proof -
  from assms have c:
    "ndim (FILTER st) = 4" "dims (FILTER st) ! 1 = kernel_h p" "dims (FILTER st) ! 2 = kernel_w p"
    "dims (FILTER st) ! 3 = dims (INPUT st) ! 3" "ndim (BIAS st) = 1"
    "dims (BIAS st) ! 0 = dims (FILTER st) ! 0"
    "SetOutputSize p NHWC (INPUT st) (OUTPUT st) (dims (FILTER st) ! 0) = None"
    by (simp_all add: check_NHWC_def Let_def split: if_splits)
  have dX: "dims (INPUT st) = [dims (INPUT st) ! 0, dims (INPUT st) ! 1, dims (INPUT st) ! 2, dims (INPUT st) ! 3]"
    using assms(2) unfolding ndim_def by (rule list4)
  have dF: "dims (FILTER st) = [dims (FILTER st) ! 0, kernel_h p, kernel_w p, dims (INPUT st) ! 3]"
    using list4[OF c(1)[unfolded ndim_def]] c(2-4) by simp
  have dB: "dims (BIAS st) = [dims (FILTER st) ! 0]"
    using list1[of "dims (BIAS st)"] c(5,6) by (simp add: ndim_def)
  from c(7) have "map int (dims (OUTPUT st)) =
      [int (dims (INPUT st) ! 0),
       out_dim (dims (INPUT st) ! 1) (kernel_h p) (stride_h p) (dilation_h p) (pad_t p) (pad_b p),
       out_dim (dims (INPUT st) ! 2) (kernel_w p) (stride_w p) (dilation_w p) (pad_l p) (pad_r p),
       int (dims (FILTER st) ! 0)]"
    by (simp add: SetOutputSize_def Let_def split: if_splits)
  then obtain oH oW where
    "dims (OUTPUT st) = [dims (INPUT st) ! 0, oH, oW, dims (FILTER st) ! 0]"
    "int oH = out_dim (dims (INPUT st) ! 1) (kernel_h p) (stride_h p) (dilation_h p) (pad_t p) (pad_b p)"
    "int oW = out_dim (dims (INPUT st) ! 2) (kernel_w p) (stride_w p) (dilation_w p) (pad_l p) (pad_r p)"
    by (auto simp: map_eq_Cons_conv)
  with dX dF dB show ?thesis by (rule that)
qed

section \<open>The channel-last pipeline\<close>

lemma contract_length: "length (data (contract a b)) = dims a ! 0 * dims b ! 1"
  by (simp add: contract_def Let_def)

lemma assign_nth: "k < length vals \<Longrightarrow> assign buf vals ! k = vals ! k"
  by (simp add: assign_def nth_append)

lemma assign_length: "length vals \<le> length buf \<Longrightarrow> length (assign buf vals) = length buf"
  by (simp add: assign_def)

lemma zero_fill_TensorMap:
  assumes "dims X = [N, H, W, C]" "n < N" "c < C"
  shows "zero_fill_NHWC (TensorMap (data X) [N, H, W, C]) n h w c = zero_fill_NHWC X n h w c"
proof (cases "0 \<le> h \<and> h < int H \<and> 0 \<le> w \<and> w < int W")
  case True
  then have "nat h < H" "nat w < W" by auto
  from size4[OF assms(2) this assms(3)]
  have "((n * H + nat h) * W + nat w) * C + c < N * H * W * C" .
  then show ?thesis
    using True by (simp add: zero_fill_NHWC_def at4_def TensorMap_def assms(1) mult.assoc)
next
  case False
  then show ?thesis
    by (auto simp add: zero_fill_NHWC_def TensorMap_def assms(1))
qed

lemma filter_matrix_NHWC_nth:
  assumes dX: "dims (INPUT st) = [N, H, W, C]"
      and dF: "dims (FILTER st) = [M, kernel_h p, kernel_w p, C]"
      and b: "i < kernel_h p" "j < kernel_w p" "c < C" "m < M"
  shows "data (filter_matrix_NHWC p st) ! (((i * kernel_w p + j) * C + c) * M + m) =
         at4 (FILTER st) m i j c"
proof -
  let ?K = "kernel_h p * kernel_w p * C"
  let ?k = "(i * kernel_w p + j) * C + c"
  have k: "?k < ?K" using lin_bound[OF lin_bound[OF b(1) b(2)] b(3)] .
  have lt: "?k * M + m < ?K * M" using k b(4) by (rule lin_bound)
  have "data (filter_matrix_NHWC p st) ! (?k * M + m) =
        transpose_array ?K M (data (FILTER st)) ! (?k * M + m)"
    using lt by (simp add: filter_matrix_NHWC_def temp_filter_def Let_def reshape_def
                    TensorMap_def dX dF)
  also have "\<dots> = data (FILTER st) ! (m * ?K + ?k)"
    using k b(4) by (rule transpose_array_nth)
  also have "m * ?K + ?k = ((m * kernel_h p + i) * kernel_w p + j) * C + c"
    by (simp add: algebra_simps)
  finally show ?thesis by (simp add: at4_def dF)
qed

lemma filter_matrix_NHWC_dims:
  "dims (filter_matrix_NHWC p st) =
     [kernel_h p * kernel_w p * (dims (INPUT st) ! 3), dims (FILTER st) ! 0]"
  by (simp add: filter_matrix_NHWC_def Let_def reshape_def TensorMap_def)

lemma size_div:
  fixes M :: nat
  assumes "M \<noteq> 0"
  shows "prod_list [N, oH, oW, M] div M = N * oH * oW"
  using assms by (simp add: mult.assoc[symmetric])

lemma contract_NHWC_nth:
  fixes st :: "'a::{comm_monoid_add,times} blobs"
  assumes dX: "dims (INPUT st) = [N, H, W, C]"
      and dF: "dims (FILTER st) = [M, kernel_h p, kernel_w p, C]"
      and dY: "dims (OUTPUT st) = [N, oH, oW, M]"
      and oH: "int oH = out_dim H (kernel_h p) (stride_h p) (dilation_h p) (pad_t p) (pad_b p)"
      and oW: "int oW = out_dim W (kernel_w p) (stride_w p) (dilation_w p) (pad_l p) (pad_r p)"
      and pos: "0 < stride_h p" "0 < stride_w p"
      and b: "n < N" "y < oH" "x < oW" "m < M"
  shows "contract_NHWC p st ! (((n * oH + y) * oW + x) * M + m) =
         (\<Sum>i<kernel_h p. \<Sum>j<kernel_w p. \<Sum>c<C.
            zero_fill_NHWC (INPUT st) n
               (int y * int (stride_h p) - int (pad_t p) + int i * int (dilation_h p))
               (int x * int (stride_w p) - int (pad_l p) + int j * int (dilation_w p)) c *
            at4 (FILTER st) m i j c)"
proof -
  let ?r = "(n * oH + y) * oW + x"
  let ?Xt = "TensorMap (data (INPUT st)) [N, H, W, C]"
  let ?Fm = "filter_matrix_NHWC p st"
  let ?A = "reshape [N * oH * oW, kernel_h p * kernel_w p * C]
              (extract_image_patches ?Xt (kernel_w p) (kernel_h p)
                       (stride_w p) (stride_h p) (dilation_w p) (dilation_h p) 1 1
                       (pad_l p) (pad_r p) (pad_t p) (pad_b p) 0)"
  have M0: "M \<noteq> 0" using b(4) by simp
  have r: "?r < N * oH * oW" using b(1-3) by (intro lin_bound)
  have lt: "?r * M + m < N * oH * oW * M" using r b(4) by (rule lin_bound)
  have dFm: "dims ?Fm ! 1 = M" by (simp add: filter_matrix_NHWC_dims dF)
  have len: "length (data (contract ?A ?Fm)) = N * oH * oW * M"
    using dFm by (simp add: contract_length reshape_def)
  have R: "size_of (OUTPUT st) div dims (FILTER st) ! 0 = N * oH * oW"
    using size_div[OF M0] by (simp add: size_of_def dY dF)
  have "contract_NHWC p st ! (?r * M + m) = data (contract ?A ?Fm) ! (?r * M + m)"
    unfolding contract_NHWC_def Let_def R
    using lt len by (simp add: assign_nth reshape_def dX dY dF)
  also have "\<dots> = (\<Sum>i<kernel_h p. \<Sum>j<kernel_w p. \<Sum>c<C.
            zero_fill_NHWC ?Xt n
               (int y * int (stride_h p) - int (pad_t p) + int i * int (dilation_h p))
               (int x * int (stride_w p) - int (pad_l p) + int j * int (dilation_w p)) c *
            data ?Fm ! (((i * kernel_w p + j) * C + c) * M + m))"
    by (rule pipeline_nth[OF _ pos oH oW dFm r b]) (simp add: TensorMap_def)
  also have "\<dots> = (\<Sum>i<kernel_h p. \<Sum>j<kernel_w p. \<Sum>c<C.
            zero_fill_NHWC (INPUT st) n
               (int y * int (stride_h p) - int (pad_t p) + int i * int (dilation_h p))
               (int x * int (stride_w p) - int (pad_l p) + int j * int (dilation_w p)) c *
            at4 (FILTER st) m i j c)"
  proof (intro sum.cong refl)
    fix i j c
    assume "i \<in> {..<kernel_h p}" "j \<in> {..<kernel_w p}" "c \<in> {..<C}"
    then have bb: "i < kernel_h p" "j < kernel_w p" "c < C" by simp_all
    show "zero_fill_NHWC ?Xt n
               (int y * int (stride_h p) - int (pad_t p) + int i * int (dilation_h p))
               (int x * int (stride_w p) - int (pad_l p) + int j * int (dilation_w p)) c *
            data ?Fm ! (((i * kernel_w p + j) * C + c) * M + m) =
          zero_fill_NHWC (INPUT st) n
               (int y * int (stride_h p) - int (pad_t p) + int i * int (dilation_h p))
               (int x * int (stride_w p) - int (pad_l p) + int j * int (dilation_w p)) c *
            at4 (FILTER st) m i j c"
      unfolding zero_fill_TensorMap[OF dX b(1) bb(3)]
        filter_matrix_NHWC_nth[OF dX dF bb b(4)] ..
  qed
  finally show ?thesis .
qed

lemma contract_NHWC_length:
  assumes "dims (OUTPUT st) = [N, oH, oW, M]" "M \<noteq> 0" "dims (FILTER st) ! 0 = M"
     "wf_tensor (OUTPUT st)"
  shows "length (contract_NHWC p st) = N * oH * oW * M"
proof -
  have R: "size_of (OUTPUT st) div dims (FILTER st) ! 0 = N * oH * oW"
    using size_div[OF assms(2)] by (simp add: size_of_def assms)
  show ?thesis
    unfolding contract_NHWC_def Let_def R
    using assms(3,4)
    by (simp add: assign_def contract_length reshape_def filter_matrix_NHWC_dims
          wf_tensor_def assms(1) mult.assoc)
qed

lemma conv_NHWC_nth:
  fixes st :: "'a::{zero,plus,times} blobs"
  assumes dF: "dims (FILTER st) ! 0 = M"
      and dY: "dims (OUTPUT st) = [N, oH, oW, M]"
      and k: "k < N * oH * oW * M"
  shows "conv_NHWC p st ! k = contract_NHWC p st ! k + data (BIAS st) ! (k mod M)"
proof -
  have M0: "M \<noteq> 0" using k by (cases M) auto
  have "k < M * (N * oH * oW)" using k by (simp add: mult.commute)
  then show ?thesis
    unfolding conv_NHWC_def Let_def size_of_def dY dF size_div[OF M0]
    by (rule colwise_add_nth)
qed

lemma run_NHWC_success:
  assumes "fst (RunOnDeviceWithOrderNHWC p st) = None"
  shows "check_NHWC p st = None" "dims (FILTER st) ! 0 \<noteq> 0"
        "snd (RunOnDeviceWithOrderNHWC p st) = st\<lparr>OUTPUT := (OUTPUT st)\<lparr>data := conv_NHWC p st\<rparr>\<rparr>"
  using assms
  by (auto simp add: RunOnDeviceWithOrderNHWC_def split: option.splits if_splits)

lemma NHWC_element:
  fixes st :: "'a::{comm_monoid_add,times} blobs"
  assumes valid: "fst (RunOnDeviceWithOrderNHWC p st) = None"
      and wf: "ndim (INPUT st) = 4" "wf_tensor (INPUT st)" "wf_tensor (FILTER st)"
              "wf_tensor (BIAS st)" "wf_tensor (OUTPUT st)"
      and pos: "0 < stride_h p" "0 < stride_w p"
      and b: "n < dims (OUTPUT st) ! 0" "y < dims (OUTPUT st) ! 1"
             "x < dims (OUTPUT st) ! 2" "m < dims (OUTPUT st) ! 3"
  shows "at4 (OUTPUT (snd (RunOnDeviceWithOrderNHWC p st))) n y x m =
         data (BIAS st) ! m +
         (\<Sum>i<kernel_h p. \<Sum>j<kernel_w p. \<Sum>c<dims (INPUT st) ! 3.
            zero_fill_NHWC (INPUT st) n
               (int y * int (stride_h p) - int (pad_t p) + int i * int (dilation_h p))
               (int x * int (stride_w p) - int (pad_l p) + int j * int (dilation_w p)) c *
            at4 (FILTER st) m i j c)"
proof -
  note s = run_NHWC_success[OF valid]
  from s(1) wf(1) obtain N H W C M oH oW where d:
    "dims (INPUT st) = [N, H, W, C]"
    "dims (FILTER st) = [M, kernel_h p, kernel_w p, C]"
    "dims (BIAS st) = [M]"
    "dims (OUTPUT st) = [N, oH, oW, M]"
    "int oH = out_dim H (kernel_h p) (stride_h p) (dilation_h p) (pad_t p) (pad_b p)"
    "int oW = out_dim W (kernel_w p) (stride_w p) (dilation_w p) (pad_l p) (pad_r p)"
    by (rule check_NHWC_NoneD)
  from b have b': "n < N" "y < oH" "x < oW" "m < M" by (simp_all add: d(4))
  let ?k = "((n * oH + y) * oW + x) * M + m"
  have lt: "?k < N * oH * oW * M" using b' by (rule size4)
  have "at4 (OUTPUT (snd (RunOnDeviceWithOrderNHWC p st))) n y x m = conv_NHWC p st ! ?k"
    by (simp add: s(3) at4_def d(4))
  also have "\<dots> = contract_NHWC p st ! ?k + data (BIAS st) ! (?k mod M)"
    by (rule conv_NHWC_nth[OF _ d(4) lt]) (simp add: d(2))
  also have "?k mod M = m" using b'(4) by simp
  also have "contract_NHWC p st ! ?k =
         (\<Sum>i<kernel_h p. \<Sum>j<kernel_w p. \<Sum>c<C.
            zero_fill_NHWC (INPUT st) n
               (int y * int (stride_h p) - int (pad_t p) + int i * int (dilation_h p))
               (int x * int (stride_w p) - int (pad_l p) + int j * int (dilation_w p)) c *
            at4 (FILTER st) m i j c)"
    by (rule contract_NHWC_nth[OF d(1,2,4,5,6) pos b'])
  finally show ?thesis by (simp add: d(1) add.commute)
qed

lemma ex_NHWC_run:
  "RunOnDeviceWithOrderNHWC ex_params ex_NHWC =
     (None, ex_NHWC\<lparr>OUTPUT := \<lparr>dims = [1, 2, 2, 2],
                                data = [2100, 4205, 6500, 13005, 8721, 17447, 13165, 26335]\<rparr>\<rparr>)"
  by code_simp

section \<open>The channel-first pipeline\<close>

lemma TensorMap_simps: "dims (TensorMap buf ds) = ds" "data (TensorMap buf ds) = take (prod_list ds) buf"
  by (simp_all add: TensorMap_def)

lemma X_tensor_NCHW_dims:
  "dims (INPUT st) = [N, C, H, W] \<Longrightarrow> dims (X_tensor_NCHW st) = [N, H, W, C]"
  by (simp add: X_tensor_NCHW_def Let_def shuffle_dims TensorMap_simps)

lemma X_tensor_NCHW_nth:
  assumes dX: "dims (INPUT st) = [N, C, H, W]"
      and b: "n < N" "h < H" "w < W" "c < C"
  shows "at4 (X_tensor_NCHW st) n h w c = at4 (INPUT st) n c h w"
proof -
  let ?T = "TensorMap (data (INPUT st)) [N, C, H, W]"
  have lt: "((n * C + c) * H + h) * W + w < N * C * H * W"
    using b(1) b(4) b(2) b(3) by (rule size4)
  have "data (shuffle [0, 2, 3, 1] ?T) ! (((n * H + h) * W + w) * C + c) =
        data ?T ! (n * (strides [N, C, H, W] ! 0) + h * (strides [N, C, H, W] ! 2) +
                   w * (strides [N, C, H, W] ! 3) + c * (strides [N, C, H, W] ! 1))"
    by (rule shuffle4_nth[where ?d0.0 = N]) (use b in \<open>simp_all add: TensorMap_simps\<close>)
  also have "n * (strides [N, C, H, W] ! 0) + h * (strides [N, C, H, W] ! 2) +
                   w * (strides [N, C, H, W] ! 3) + c * (strides [N, C, H, W] ! 1) =
             ((n * C + c) * H + h) * W + w"
    by (simp add: algebra_simps)
  also have "data ?T ! (((n * C + c) * H + h) * W + w) =
             data (INPUT st) ! (((n * C + c) * H + h) * W + w)"
    using lt by (simp add: TensorMap_simps mult.assoc)
  finally have e: "data (shuffle [0, 2, 3, 1] ?T) ! (((n * H + h) * W + w) * C + c) =
                   data (INPUT st) ! (((n * C + c) * H + h) * W + w)" .
  have Xt: "X_tensor_NCHW st = shuffle [0, 2, 3, 1] ?T"
    by (simp add: X_tensor_NCHW_def Let_def dX)
  show ?thesis
    unfolding at4_def X_tensor_NCHW_dims[OF dX] dX using e by (simp add: Xt)
qed

lemma zero_fill_X_tensor_NCHW:
  assumes dX: "dims (INPUT st) = [N, C, H, W]" and b: "n < N" "c < C"
  shows "zero_fill_NHWC (X_tensor_NCHW st) n h w c = zero_fill_NCHW (INPUT st) n c h w"
proof (cases "0 \<le> h \<and> h < int H \<and> 0 \<le> w \<and> w < int W")
  case True
  then have "nat h < H" "nat w < W" by auto
  from X_tensor_NCHW_nth[OF dX b(1) this b(2)] True show ?thesis
    by (simp add: zero_fill_NHWC_def zero_fill_NCHW_def X_tensor_NCHW_dims[OF dX] dX)
next
  case False
  then show ?thesis
    by (auto simp add: zero_fill_NHWC_def zero_fill_NCHW_def X_tensor_NCHW_dims[OF dX] dX)
qed

lemma filter_tensor_NCHW_dims:
  "dims (filter_tensor_NCHW p st) = [kernel_h p, kernel_w p, dims (INPUT st) ! 1, dims (FILTER st) ! 0]"
  by (simp add: filter_tensor_NCHW_def Let_def shuffle_dims TensorMap_simps)

lemma filter_tensor_NCHW_nth:
  assumes dX: "dims (INPUT st) = [N, C, H, W]"
      and dF: "dims (FILTER st) = [M, C, kernel_h p, kernel_w p]"
      and b: "i < kernel_h p" "j < kernel_w p" "c < C" "m < M"
  shows "data (filter_tensor_NCHW p st) ! (((i * kernel_w p + j) * C + c) * M + m) =
         at4 (FILTER st) m c i j"
proof -
  let ?ds = "[M, C, kernel_h p, kernel_w p]"
  let ?T = "TensorMap (data (FILTER st)) ?ds"
  have lt: "((m * C + c) * kernel_h p + i) * kernel_w p + j < M * C * kernel_h p * kernel_w p"
    using b(4) b(3) b(1) b(2) by (rule size4)
  have "data (shuffle [2, 3, 1, 0] ?T) ! (((i * kernel_w p + j) * C + c) * M + m) =
        data ?T ! (i * (strides ?ds ! 2) + j * (strides ?ds ! 3) +
                   c * (strides ?ds ! 1) + m * (strides ?ds ! 0))"
    by (rule shuffle4_nth[where ?d0.0 = "kernel_h p"]) (use b in \<open>simp_all add: TensorMap_simps\<close>)
  also have "i * (strides ?ds ! 2) + j * (strides ?ds ! 3) +
                   c * (strides ?ds ! 1) + m * (strides ?ds ! 0) =
             ((m * C + c) * kernel_h p + i) * kernel_w p + j"
    by (simp add: algebra_simps)
  also have "data ?T ! (((m * C + c) * kernel_h p + i) * kernel_w p + j) =
             data (FILTER st) ! (((m * C + c) * kernel_h p + i) * kernel_w p + j)"
    using lt by (simp add: TensorMap_simps mult.assoc)
  finally have e: "data (shuffle [2, 3, 1, 0] ?T) ! (((i * kernel_w p + j) * C + c) * M + m) =
             data (FILTER st) ! (((m * C + c) * kernel_h p + i) * kernel_w p + j)" .
  have Ft: "filter_tensor_NCHW p st = shuffle [2, 3, 1, 0] ?T"
    by (simp add: filter_tensor_NCHW_def Let_def dX dF)
  show ?thesis
    unfolding at4_def dF using e by (simp add: Ft)
qed

lemma check_NCHW_NoneD:
  assumes "check_NCHW p st = None" "ndim (INPUT st) = 4"
  obtains N C H W M oH oW where
    "dims (INPUT st) = [N, C, H, W]"
    "dims (FILTER st) = [M, C, kernel_h p, kernel_w p]"
    "dims (BIAS st) = [M]"
    "dims (OUTPUT st) = [N, M, oH, oW]"
    "int oH = out_dim H (kernel_h p) (stride_h p) (dilation_h p) (pad_t p) (pad_b p)"
    "int oW = out_dim W (kernel_w p) (stride_w p) (dilation_w p) (pad_l p) (pad_r p)"
proof -
  from assms have c:
    "ndim (FILTER st) = 4" "dims (FILTER st) ! 1 = dims (INPUT st) ! 1"
    "dims (FILTER st) ! 2 = kernel_h p" "dims (FILTER st) ! 3 = kernel_w p"
    "ndim (BIAS st) = 1"
    "dims (BIAS st) ! 0 = dims (FILTER st) ! 0"
    "SetOutputSize p NCHW (INPUT st) (OUTPUT st) (dims (FILTER st) ! 0) = None"
    by (simp_all add: check_NCHW_def Let_def split: if_splits)
  have dX: "dims (INPUT st) = [dims (INPUT st) ! 0, dims (INPUT st) ! 1, dims (INPUT st) ! 2, dims (INPUT st) ! 3]"
    using assms(2) unfolding ndim_def by (rule list4)
  have dF: "dims (FILTER st) = [dims (FILTER st) ! 0, dims (INPUT st) ! 1, kernel_h p, kernel_w p]"
    using list4[OF c(1)[unfolded ndim_def]] c(2-4) by simp
  have dB: "dims (BIAS st) = [dims (FILTER st) ! 0]"
    using list1[of "dims (BIAS st)"] c(5,6) by (simp add: ndim_def)
  from c(7) have "map int (dims (OUTPUT st)) =
      [int (dims (INPUT st) ! 0), int (dims (FILTER st) ! 0),
       out_dim (dims (INPUT st) ! 2) (kernel_h p) (stride_h p) (dilation_h p) (pad_t p) (pad_b p),
       out_dim (dims (INPUT st) ! 3) (kernel_w p) (stride_w p) (dilation_w p) (pad_l p) (pad_r p)]"
    by (simp add: SetOutputSize_def Let_def split: if_splits)
  then obtain oH oW where
    "dims (OUTPUT st) = [dims (INPUT st) ! 0, dims (FILTER st) ! 0, oH, oW]"
    "int oH = out_dim (dims (INPUT st) ! 2) (kernel_h p) (stride_h p) (dilation_h p) (pad_t p) (pad_b p)"
    "int oW = out_dim (dims (INPUT st) ! 3) (kernel_w p) (stride_w p) (dilation_w p) (pad_l p) (pad_r p)"
    by (auto simp: map_eq_Cons_conv)
  with dX dF dB show ?thesis by (rule that)
qed

lemma size_div_NCHW:
  fixes M :: nat
  assumes "M \<noteq> 0"
  shows "prod_list [N, M, oH, oW] div M = N * oH * oW"
proof -
  have "prod_list [N, M, oH, oW] = N * oH * oW * M" by (simp add: algebra_simps)
  then show ?thesis using assms by simp
qed

lemma contract_NCHW_dims:
  "dims (OUTPUT st) = [N, M, oH, oW] \<Longrightarrow> dims (contract_NCHW p st) = [N, oH, oW, M]"
  by (simp add: contract_NCHW_def Let_def reshape_def)

lemma contract_NCHW_length:
  assumes "dims (OUTPUT st) = [N, M, oH, oW]" "M \<noteq> 0" "dims (FILTER st) ! 0 = M"
  shows "length (data (contract_NCHW p st)) = N * oH * oW * M"
proof -
  have R: "size_of (OUTPUT st) div dims (FILTER st) ! 0 = N * oH * oW"
    using size_div_NCHW[OF assms(2)] by (simp add: size_of_def assms)
  show ?thesis
    unfolding contract_NCHW_def Let_def R
    using assms(3) by (simp add: contract_length reshape_def)
qed

lemma contract_NCHW_nth:
  fixes st :: "'a::{comm_monoid_add,times} blobs"
  assumes dX: "dims (INPUT st) = [N, C, H, W]"
      and dF: "dims (FILTER st) = [M, C, kernel_h p, kernel_w p]"
      and dY: "dims (OUTPUT st) = [N, M, oH, oW]"
      and oH: "int oH = out_dim H (kernel_h p) (stride_h p) (dilation_h p) (pad_t p) (pad_b p)"
      and oW: "int oW = out_dim W (kernel_w p) (stride_w p) (dilation_w p) (pad_l p) (pad_r p)"
      and pos: "0 < stride_h p" "0 < stride_w p"
      and b: "n < N" "y < oH" "x < oW" "m < M"
  shows "at4 (contract_NCHW p st) n y x m =
         (\<Sum>i<kernel_h p. \<Sum>j<kernel_w p. \<Sum>c<C.
            zero_fill_NCHW (INPUT st) n c
               (int y * int (stride_h p) - int (pad_t p) + int i * int (dilation_h p))
               (int x * int (stride_w p) - int (pad_l p) + int j * int (dilation_w p)) *
            at4 (FILTER st) m c i j)"
proof -
  let ?r = "(n * oH + y) * oW + x"
  let ?Xt = "X_tensor_NCHW st"
  let ?Fm = "reshape [kernel_h p * kernel_w p * C, M] (filter_tensor_NCHW p st)"
  let ?A = "reshape [N * oH * oW, kernel_h p * kernel_w p * C]
              (extract_image_patches ?Xt (kernel_w p) (kernel_h p)
                       (stride_w p) (stride_h p) (dilation_w p) (dilation_h p) 1 1
                       (pad_l p) (pad_r p) (pad_t p) (pad_b p) 0)"
  have M0: "M \<noteq> 0" using b(4) by simp
  have r: "?r < N * oH * oW" using b(1-3) by (intro lin_bound)
  have dFm: "dims ?Fm ! 1 = M" by (simp add: reshape_def)
  have R: "size_of (OUTPUT st) div dims (FILTER st) ! 0 = N * oH * oW"
    using size_div_NCHW[OF M0] by (simp add: size_of_def dY dF)
  have "at4 (contract_NCHW p st) n y x m = data (contract_NCHW p st) ! (?r * M + m)"
    by (simp add: at4_def contract_NCHW_dims[OF dY])
  also have "\<dots> = data (contract ?A ?Fm) ! (?r * M + m)"
    unfolding contract_NCHW_def Let_def R
    by (simp add: reshape_def dX dY dF)
  also have "\<dots> = (\<Sum>i<kernel_h p. \<Sum>j<kernel_w p. \<Sum>c<C.
            zero_fill_NHWC ?Xt n
               (int y * int (stride_h p) - int (pad_t p) + int i * int (dilation_h p))
               (int x * int (stride_w p) - int (pad_l p) + int j * int (dilation_w p)) c *
            data ?Fm ! (((i * kernel_w p + j) * C + c) * M + m))"
    by (rule pipeline_nth[OF X_tensor_NCHW_dims[OF dX] pos oH oW dFm r b])
  also have "\<dots> = (\<Sum>i<kernel_h p. \<Sum>j<kernel_w p. \<Sum>c<C.
            zero_fill_NCHW (INPUT st) n c
               (int y * int (stride_h p) - int (pad_t p) + int i * int (dilation_h p))
               (int x * int (stride_w p) - int (pad_l p) + int j * int (dilation_w p)) *
            at4 (FILTER st) m c i j)"
  proof (intro sum.cong refl)
    fix i j c
    assume "i \<in> {..<kernel_h p}" "j \<in> {..<kernel_w p}" "c \<in> {..<C}"
    then have bb: "i < kernel_h p" "j < kernel_w p" "c < C" by simp_all
    have f: "data ?Fm ! (((i * kernel_w p + j) * C + c) * M + m) = at4 (FILTER st) m c i j"
      using filter_tensor_NCHW_nth[OF dX dF bb b(4)] by (simp add: reshape_def)
    show "zero_fill_NHWC ?Xt n
               (int y * int (stride_h p) - int (pad_t p) + int i * int (dilation_h p))
               (int x * int (stride_w p) - int (pad_l p) + int j * int (dilation_w p)) c *
            data ?Fm ! (((i * kernel_w p + j) * C + c) * M + m) =
          zero_fill_NCHW (INPUT st) n c
               (int y * int (stride_h p) - int (pad_t p) + int i * int (dilation_h p))
               (int x * int (stride_w p) - int (pad_l p) + int j * int (dilation_w p)) *
            at4 (FILTER st) m c i j"
      unfolding zero_fill_X_tensor_NCHW[OF dX b(1) bb(3)] f ..
  qed
  finally show ?thesis .
qed

lemma biased_NCHW_dims: "dims (biased_NCHW p st) = dims (contract_NCHW p st)"
  by (simp add: biased_NCHW_def Let_def)

lemma biased_NCHW_nth:
  fixes st :: "'a::{zero,plus,times} blobs"
  assumes dF: "dims (FILTER st) ! 0 = M"
      and dY: "dims (OUTPUT st) = [N, M, oH, oW]"
      and k: "k < N * oH * oW * M"
  shows "data (biased_NCHW p st) ! k =
         data (contract_NCHW p st) ! k + data (BIAS st) ! (k mod M)"
proof -
  have M0: "M \<noteq> 0" using k by (cases M) auto
  have R: "size_of (OUTPUT st) div dims (FILTER st) ! 0 = N * oH * oW"
    using size_div_NCHW[OF M0] by (simp add: size_of_def dY dF)
  have "k < M * (N * oH * oW)" using k by (simp add: mult.commute)
  then have "colwise_add M (N * oH * oW) (data (contract_NCHW p st)) (data (BIAS st)) ! k =
             data (contract_NCHW p st) ! k + data (BIAS st) ! (k mod M)"
    by (rule colwise_add_nth)
  then show ?thesis
    unfolding biased_NCHW_def Let_def R by (simp add: dF)
qed

lemma biased_NCHW_length:
  assumes "dims (OUTPUT st) = [N, M, oH, oW]" "M \<noteq> 0" "dims (FILTER st) ! 0 = M"
  shows "length (data (biased_NCHW p st)) = N * oH * oW * M"
proof -
  have R: "size_of (OUTPUT st) div dims (FILTER st) ! 0 = N * oH * oW"
    using size_div_NCHW[OF assms(2)] by (simp add: size_of_def assms)
  have "length (colwise_add M (N * oH * oW) (data (contract_NCHW p st)) (data (BIAS st))) =
        length (data (contract_NCHW p st))"
    by (rule colwise_add_length) (simp add: contract_NCHW_length[OF assms] mult.commute)
  then show ?thesis
    unfolding biased_NCHW_def Let_def R
    by (simp add: assms(3) contract_NCHW_length[OF assms])
qed

lemma conv_NCHW_nth:
  fixes st :: "'a::{zero,plus,times} blobs"
  assumes dF: "dims (FILTER st) ! 0 = M"
      and dY: "dims (OUTPUT st) = [N, M, oH, oW]"
      and b: "n < N" "m < M" "y < oH" "x < oW"
  shows "conv_NCHW p st ! (((n * M + m) * oH + y) * oW + x) = at4 (biased_NCHW p st) n y x m"
proof -
  let ?B = "biased_NCHW p st"
  let ?ds = "[N, oH, oW, M]"
  let ?k = "((n * M + m) * oH + y) * oW + x"
  have dB: "dims ?B = ?ds" by (simp add: biased_NCHW_dims contract_NCHW_dims[OF dY])
  have lt: "?k < N * M * oH * oW" using b by (rule size4)
  have len: "length (data (shuffle [0, 3, 1, 2] ?B)) = N * M * oH * oW"
    by (simp add: shuffle_length dB)
  have "conv_NCHW p st ! ?k = data (shuffle [0, 3, 1, 2] ?B) ! ?k"
    unfolding conv_NCHW_def Let_def using lt len by (simp add: assign_nth)
  also have "\<dots> = data ?B ! (n * (strides ?ds ! 0) + m * (strides ?ds ! 3) +
                                y * (strides ?ds ! 1) + x * (strides ?ds ! 2))"
    by (rule shuffle4_nth[where ?d0.0 = N]) (use b dB in simp_all)
  also have "n * (strides ?ds ! 0) + m * (strides ?ds ! 3) +
                                y * (strides ?ds ! 1) + x * (strides ?ds ! 2) =
             ((n * oH + y) * oW + x) * M + m"
    by (simp add: algebra_simps)
  finally show ?thesis by (simp add: at4_def dB)
qed

lemma run_NCHW_success:
  assumes "fst (RunOnDeviceWithOrderNCHW p st) = None"
  shows "check_NCHW p st = None" "dims (FILTER st) ! 0 \<noteq> 0"
        "snd (RunOnDeviceWithOrderNCHW p st) = st\<lparr>OUTPUT := (OUTPUT st)\<lparr>data := conv_NCHW p st\<rparr>\<rparr>"
  using assms
  by (auto simp add: RunOnDeviceWithOrderNCHW_def split: option.splits if_splits)

lemma NCHW_element:
  fixes st :: "'a::{comm_monoid_add,times} blobs"
  assumes valid: "fst (RunOnDeviceWithOrderNCHW p st) = None"
      and wf: "ndim (INPUT st) = 4"
      and pos: "0 < stride_h p" "0 < stride_w p"
      and b: "n < dims (OUTPUT st) ! 0" "m < dims (OUTPUT st) ! 1"
             "y < dims (OUTPUT st) ! 2" "x < dims (OUTPUT st) ! 3"
  shows "at4 (OUTPUT (snd (RunOnDeviceWithOrderNCHW p st))) n m y x =
         data (BIAS st) ! m +
         (\<Sum>i<kernel_h p. \<Sum>j<kernel_w p. \<Sum>c<dims (INPUT st) ! 1.
            zero_fill_NCHW (INPUT st) n c
               (int y * int (stride_h p) - int (pad_t p) + int i * int (dilation_h p))
               (int x * int (stride_w p) - int (pad_l p) + int j * int (dilation_w p)) *
            at4 (FILTER st) m c i j)"
proof -
  note s = run_NCHW_success[OF valid]
  from s(1) wf(1) obtain N C H W M oH oW where d:
    "dims (INPUT st) = [N, C, H, W]"
    "dims (FILTER st) = [M, C, kernel_h p, kernel_w p]"
    "dims (BIAS st) = [M]"
    "dims (OUTPUT st) = [N, M, oH, oW]"
    "int oH = out_dim H (kernel_h p) (stride_h p) (dilation_h p) (pad_t p) (pad_b p)"
    "int oW = out_dim W (kernel_w p) (stride_w p) (dilation_w p) (pad_l p) (pad_r p)"
    by (rule check_NCHW_NoneD)
  from b have b': "n < N" "m < M" "y < oH" "x < oW" by (simp_all add: d(4))
  have dF0: "dims (FILTER st) ! 0 = M" by (simp add: d(2))
  let ?k = "((n * oH + y) * oW + x) * M + m"
  have lt: "?k < N * oH * oW * M" using b'(1,3,4,2) by (rule size4)
  have "at4 (OUTPUT (snd (RunOnDeviceWithOrderNCHW p st))) n m y x =
        conv_NCHW p st ! (((n * M + m) * oH + y) * oW + x)"
    by (simp add: s(3) at4_def d(4))
  also have "\<dots> = at4 (biased_NCHW p st) n y x m"
    by (rule conv_NCHW_nth[OF dF0 d(4) b'])
  also have "\<dots> = data (biased_NCHW p st) ! ?k"
    by (simp add: at4_def biased_NCHW_dims contract_NCHW_dims[OF d(4)])
  also have "\<dots> = data (contract_NCHW p st) ! ?k + data (BIAS st) ! (?k mod M)"
    by (rule biased_NCHW_nth[OF dF0 d(4) lt])
  also have "?k mod M = m" using b'(2) by simp
  also have "data (contract_NCHW p st) ! ?k = at4 (contract_NCHW p st) n y x m"
    by (simp add: at4_def contract_NCHW_dims[OF d(4)])
  also have "\<dots> =
         (\<Sum>i<kernel_h p. \<Sum>j<kernel_w p. \<Sum>c<C.
            zero_fill_NCHW (INPUT st) n c
               (int y * int (stride_h p) - int (pad_t p) + int i * int (dilation_h p))
               (int x * int (stride_w p) - int (pad_l p) + int j * int (dilation_w p)) *
            at4 (FILTER st) m c i j)"
    by (rule contract_NCHW_nth[OF d(1,2,4,5,6) pos b'(1,3,4,2)])
  finally show ?thesis by (simp add: d(1) add.commute)
qed

text \<open>
  On the padding example the corners are the sums of the four cells inside the image
  (1 + 2 + 4 + 5 = 12 at the top left) and the centre is the sum of all nine, in either
  layout.
\<close>

lemma ex_3x3_NHWC_run:
  "RunOnDeviceWithOrderNHWC ex_params_3x3 ex_3x3_NHWC =
     (None, ex_3x3_NHWC\<lparr>OUTPUT := \<lparr>dims = [1, 3, 3, 1],
                                    data = [12, 21, 16, 27, 45, 33, 24, 39, 28]\<rparr>\<rparr>)"
  by code_simp

lemma ex_3x3_NCHW_run:
  "RunOnDeviceWithOrderNCHW ex_params_3x3 ex_3x3_NCHW =
     (None, ex_3x3_NCHW\<lparr>OUTPUT := \<lparr>dims = [1, 1, 3, 3],
                                    data = [12, 21, 16, 27, 45, 33, 24, 39, 28]\<rparr>\<rparr>)"
  by code_simp

lemma ex_NCHW_run:
  "RunOnDeviceWithOrderNCHW ex_params ex_NCHW =
     (None, ex_NCHW\<lparr>OUTPUT := \<lparr>dims = [1, 2, 2, 2],
                                data = [2100, 6500, 8721, 13165, 4205, 13005, 17447, 26335]\<rparr>\<rparr>)"
  by code_simp

lemma patch_src_bound:
  assumes inflate: "row_inflate_strides op = 1" "col_inflate_strides op = 1"
      and idx: "index < prod_list (patch_dims op [N, IC, IR, D])"
      and src: "patch_src op [N, IC, IR, D] index = Some k"
  shows "k < N * IC * IR * D"
proof -
  define K where "K = patch_rows op * patch_cols op * D"
  define P where "P = outputRows op [N, IC, IR, D] * outputCols op [N, IC, IR, D]"
  define other where "other = index div (K * P)"
  define p2 where "p2 = (index - other * (K * P)) div K"
  define poff where "poff = (index - index div K * K) div D"
  define inputCol where "inputCol = int (p2 div outputRows op [N, IC, IR, D]) * int (col_strides op) +
      int (poff div patch_rows op) * int (in_col_strides op) - int (padding_left op)"
  define inputRow where "inputRow =
      int (p2 - p2 div outputRows op [N, IC, IR, D] * outputRows op [N, IC, IR, D]) * int (row_strides op) +
      int (poff - poff div patch_rows op * patch_rows op) * int (in_row_strides op) - int (padding_top op)"
  define depth where "depth = index - index div D * D"
  have eq: "patch_src op [N, IC, IR, D] index =
      (if inputCol < 0 \<or> inputCol \<ge> int IC then None
       else if inputRow < 0 \<or> inputRow \<ge> int IR then None
       else Some (depth + nat inputRow * D + nat inputCol * (D * IR) + other * (D * IR * IC)))"
    by (simp add: patch_src_def Let_def inflate input_eff_def K_def P_def other_def p2_def
          poff_def inputCol_def inputRow_def depth_def)
  from src have c: "0 \<le> inputCol" "inputCol < int IC" "0 \<le> inputRow" "inputRow < int IR"
    and k: "k = depth + nat inputRow * D + nat inputCol * (D * IR) + other * (D * IR * IC)"
    unfolding eq by (simp_all split: if_splits)
  have tot: "prod_list (patch_dims op [N, IC, IR, D]) = N * (K * P)"
    by (simp add: patch_dims_def K_def P_def algebra_simps)
  have D0: "0 < D" using idx unfolding tot K_def by (cases D) auto
  have d: "depth < D" using D0 by (simp add: depth_def minus_div_mult_eq_mod)
  have o: "other < N" unfolding other_def using idx unfolding tot
    by (rule less_mult_imp_div_less)
  have rc: "nat inputRow < IR" "nat inputCol < IC" using c by auto
  have "((other * IC + nat inputCol) * IR + nat inputRow) * D + depth < N * IC * IR * D"
    using o rc(2) rc(1) d by (rule size4)
  also have "((other * IC + nat inputCol) * IR + nat inputRow) * D + depth = k"
    unfolding k by (simp add: algebra_simps)
  finally show ?thesis .
qed

lemma conv_NCHW_length:
  assumes dY: "dims (OUTPUT st) = [N, M, oH, oW]" and wf: "wf_tensor (OUTPUT st)"
  shows "length (conv_NCHW p st) = N * M * oH * oW"
proof -
  have dB: "dims (biased_NCHW p st) = [N, oH, oW, M]"
    by (simp add: biased_NCHW_dims contract_NCHW_dims[OF dY])
  have "length (data (shuffle [0, 3, 1, 2] (biased_NCHW p st))) = N * M * oH * oW"
    by (simp add: shuffle_length dB)
  moreover have "length (data (OUTPUT st)) = N * M * oH * oW"
    using wf by (simp add: wf_tensor_def dY mult.assoc)
  ultimately show ?thesis
    by (simp add: conv_NCHW_def Let_def assign_length)
qed

section \<open>Agreement of the two pipelines\<close>

lemma X_tensor_data_agree:
  assumes dXF: "dims (INPUT stF) = [N, C, H, W]"
      and dXL: "dims (INPUT stL) = [N, H, W, C]"
      and X_eq: "\<forall>n<N. \<forall>c<C. \<forall>h<H. \<forall>w<W. at4 (INPUT stF) n c h w = at4 (INPUT stL) n h w c"
      and k: "k < N * H * W * C"
  shows "data (X_tensor_NCHW stF) ! k = data (TensorMap (data (INPUT stL)) [N, H, W, C]) ! k"
proof -
  from k obtain n h w c where b: "n < N" "h < H" "w < W" "c < C"
    and e: "k = ((n * H + h) * W + w) * C + c"
    by (rule decode4)
  have "data (X_tensor_NCHW stF) ! k = at4 (X_tensor_NCHW stF) n h w c"
    by (simp add: at4_def X_tensor_NCHW_dims[OF dXF] e)
  also have "\<dots> = at4 (INPUT stF) n c h w"
    using b by (rule X_tensor_NCHW_nth[OF dXF])
  also have "\<dots> = at4 (INPUT stL) n h w c"
    using X_eq b by blast
  also have "\<dots> = data (INPUT stL) ! k"
    by (simp add: at4_def dXL e)
  also have "\<dots> = data (TensorMap (data (INPUT stL)) [N, H, W, C]) ! k"
    using k by (simp add: TensorMap_simps mult.assoc)
  finally show ?thesis .
qed

lemma patches_agree:
  fixes stF stL :: "'a::zero blobs"
  assumes dXF: "dims (INPUT stF) = [N, C, H, W]"
      and dXL: "dims (INPUT stL) = [N, H, W, C]"
      and X_eq: "\<forall>n<N. \<forall>c<C. \<forall>h<H. \<forall>w<W. at4 (INPUT stF) n c h w = at4 (INPUT stL) n h w c"
  shows "extract_image_patches (X_tensor_NCHW stF) kw kh sw sh dw dh 1 1 pl pr pt pb 0 =
         extract_image_patches (TensorMap (data (INPUT stL)) [N, H, W, C])
           kw kh sw sh dw dh 1 1 pl pr pt pb 0"
proof -
  define op where "op = \<lparr>patch_rows = kw, patch_cols = kh,
                 row_strides = sw, col_strides = sh,
                 in_row_strides = dw, in_col_strides = dh,
                 row_inflate_strides = 1,
                 col_inflate_strides = 1,
                 padding_top = pl, padding_bottom = pr,
                 padding_left = pt, padding_right = pb\<rparr>"
  have inflate: "row_inflate_strides op = 1" "col_inflate_strides op = 1"
    by (simp_all add: op_def)
  have "(case patch_src op [N, H, W, C] index of
           None \<Rightarrow> 0 | Some k \<Rightarrow> data (X_tensor_NCHW stF) ! k) =
        (case patch_src op [N, H, W, C] index of
           None \<Rightarrow> 0 | Some k \<Rightarrow> data (TensorMap (data (INPUT stL)) [N, H, W, C]) ! k)"
    if idx: "index < prod_list (patch_dims op [N, H, W, C])" for index
  proof (cases "patch_src op [N, H, W, C] index")
    case None
    then show ?thesis by simp
  next
    case (Some k)
    have "k < N * H * W * C" using inflate idx Some by (rule patch_src_bound)
    then show ?thesis
      using Some X_tensor_data_agree[OF dXF dXL X_eq] by simp
  qed
  then show ?thesis
    unfolding extract_image_patches_def Let_def op_def[symmetric]
    by (simp add: X_tensor_NCHW_dims[OF dXF] TensorMap_simps)
qed

lemma filter_matrices_agree:
  assumes dXF: "dims (INPUT stF) = [N, C, H, W]"
      and dXL: "dims (INPUT stL) = [N, H, W, C]"
      and dFF: "dims (FILTER stF) = [M, C, kernel_h p, kernel_w p]"
      and dFL: "dims (FILTER stL) = [M, kernel_h p, kernel_w p, C]"
      and F_eq: "\<forall>m<M. \<forall>c<C. \<forall>i<kernel_h p. \<forall>j<kernel_w p.
                   at4 (FILTER stF) m c i j = at4 (FILTER stL) m i j c"
  shows "reshape [kernel_h p * kernel_w p * C, M] (filter_tensor_NCHW p stF) =
         filter_matrix_NHWC p stL"
proof (rule tensor.equality)
  show "dims (reshape [kernel_h p * kernel_w p * C, M] (filter_tensor_NCHW p stF)) =
        dims (filter_matrix_NHWC p stL)"
    by (simp add: reshape_def filter_matrix_NHWC_dims dXL dFL)
  show "tensor.more (reshape [kernel_h p * kernel_w p * C, M] (filter_tensor_NCHW p stF)) =
        tensor.more (filter_matrix_NHWC p stL)"
    by simp
  show "data (reshape [kernel_h p * kernel_w p * C, M] (filter_tensor_NCHW p stF)) =
        data (filter_matrix_NHWC p stL)"
  proof (rule nth_equalityI)
    have lF: "length (data (filter_tensor_NCHW p stF)) = kernel_h p * kernel_w p * C * M"
      by (simp add: filter_tensor_NCHW_def Let_def shuffle_length TensorMap_simps dXF dFF
            mult.assoc)
    have lL: "length (data (filter_matrix_NHWC p stL)) = kernel_h p * kernel_w p * C * M"
      by (simp add: filter_matrix_NHWC_def temp_filter_def Let_def reshape_def TensorMap_simps
            transpose_array_length dXL dFL algebra_simps)
    show "length (data (reshape [kernel_h p * kernel_w p * C, M] (filter_tensor_NCHW p stF))) =
          length (data (filter_matrix_NHWC p stL))"
      by (simp add: reshape_def lF lL)
    fix idx
    assume "idx < length (data (reshape [kernel_h p * kernel_w p * C, M]
                            (filter_tensor_NCHW p stF)))"
    then have "idx < kernel_h p * kernel_w p * C * M" by (simp add: reshape_def lF)
    then obtain i j c m where b: "i < kernel_h p" "j < kernel_w p" "c < C" "m < M"
      and e: "idx = ((i * kernel_w p + j) * C + c) * M + m"
      by (rule decode4)
    have "data (filter_tensor_NCHW p stF) ! idx = at4 (FILTER stF) m c i j"
      unfolding e by (rule filter_tensor_NCHW_nth[OF dXF dFF b])
    also have "\<dots> = at4 (FILTER stL) m i j c" using F_eq b by blast
    also have "\<dots> = data (filter_matrix_NHWC p stL) ! idx"
      unfolding e by (rule filter_matrix_NHWC_nth[OF dXL dFL b, symmetric])
    finally show "data (reshape [kernel_h p * kernel_w p * C, M] (filter_tensor_NCHW p stF)) ! idx =
                  data (filter_matrix_NHWC p stL) ! idx"
      by (simp add: reshape_def)
  qed
qed

lemma contractions_agree:
  fixes stF stL :: "'a::{zero,plus,times} blobs"
  assumes dXF: "dims (INPUT stF) = [N, C, H, W]"
      and dXL: "dims (INPUT stL) = [N, H, W, C]"
      and dFF: "dims (FILTER stF) = [M, C, kernel_h p, kernel_w p]"
      and dFL: "dims (FILTER stL) = [M, kernel_h p, kernel_w p, C]"
      and dYF: "dims (OUTPUT stF) = [N, M, oH, oW]"
      and dYL: "dims (OUTPUT stL) = [N, oH, oW, M]"
      and X_eq: "\<forall>n<N. \<forall>c<C. \<forall>h<H. \<forall>w<W. at4 (INPUT stF) n c h w = at4 (INPUT stL) n h w c"
      and F_eq: "\<forall>m<M. \<forall>c<C. \<forall>i<kernel_h p. \<forall>j<kernel_w p.
                   at4 (FILTER stF) m c i j = at4 (FILTER stL) m i j c"
      and k: "k < N * oH * oW * M"
  shows "data (contract_NCHW p stF) ! k = contract_NHWC p stL ! k"
proof -
  have M0: "M \<noteq> 0" using k by (cases M) auto
  have RF: "size_of (OUTPUT stF) div dims (FILTER stF) ! 0 = N * oH * oW"
    using size_div_NCHW[OF M0] by (simp add: size_of_def dYF dFF)
  have RL: "size_of (OUTPUT stL) div dims (FILTER stL) ! 0 = N * oH * oW"
    using size_div[OF M0] by (simp add: size_of_def dYL dFL)
  let ?PL = "extract_image_patches (TensorMap (data (INPUT stL)) [N, H, W, C])
               (kernel_w p) (kernel_h p) (stride_w p) (stride_h p) (dilation_w p)
               (dilation_h p) 1 1 (pad_l p) (pad_r p) (pad_t p) (pad_b p) 0"
  let ?A = "reshape [N * oH * oW, kernel_h p * kernel_w p * C] ?PL"
  let ?B = "filter_matrix_NHWC p stL"
  let ?PF = "extract_image_patches (X_tensor_NCHW stF)
               (kernel_w p) (kernel_h p) (stride_w p) (stride_h p) (dilation_w p)
               (dilation_h p) 1 1 (pad_l p) (pad_r p) (pad_t p) (pad_b p) 0"
  have P: "?PF = ?PL" by (rule patches_agree[OF dXF dXL X_eq])
  have B: "reshape [kernel_h p * kernel_w p * C, M] (filter_tensor_NCHW p stF) = ?B"
    by (rule filter_matrices_agree[OF dXF dXL dFF dFL F_eq])
  have "data (contract_NCHW p stF) =
        data (contract (reshape [N * oH * oW, kernel_h p * kernel_w p * C] ?PF)
                (reshape [kernel_h p * kernel_w p * C, M] (filter_tensor_NCHW p stF)))"
    unfolding contract_NCHW_def Let_def RF
    by (simp add: reshape_def dXF dFF)
  then have F: "data (contract_NCHW p stF) = data (contract ?A ?B)"
    unfolding P B .
  have len: "length (data (contract ?A ?B)) = N * oH * oW * M"
    by (simp add: contract_length reshape_def filter_matrix_NHWC_dims dFL)
  have L: "contract_NHWC p stL ! k = data (contract ?A ?B) ! k"
    unfolding contract_NHWC_def Let_def RL
    using k len by (simp add: assign_nth reshape_def dXL dYL dFL)
  show ?thesis by (simp add: F L)
qed

lemma NHWC_biased_element:
  fixes st :: "'a::{zero,plus,times} blobs"
  assumes valid: "fst (RunOnDeviceWithOrderNHWC p st) = None"
      and dF0: "dims (FILTER st) ! 0 = M"
      and dY: "dims (OUTPUT st) = [N, oH, oW, M]"
      and b: "n < N" "y < oH" "x < oW" "m < M"
  shows "at4 (OUTPUT (snd (RunOnDeviceWithOrderNHWC p st))) n y x m =
         contract_NHWC p st ! (((n * oH + y) * oW + x) * M + m) + data (BIAS st) ! m"
proof -
  let ?k = "((n * oH + y) * oW + x) * M + m"
  have lt: "?k < N * oH * oW * M" using b by (rule size4)
  have "at4 (OUTPUT (snd (RunOnDeviceWithOrderNHWC p st))) n y x m = conv_NHWC p st ! ?k"
    by (simp add: run_NHWC_success(3)[OF valid] at4_def dY)
  also have "\<dots> = contract_NHWC p st ! ?k + data (BIAS st) ! (?k mod M)"
    by (rule conv_NHWC_nth[OF dF0 dY lt])
  also have "?k mod M = m" using b(4) by simp
  finally show ?thesis .
qed

lemma NCHW_biased_element:
  fixes st :: "'a::{zero,plus,times} blobs"
  assumes valid: "fst (RunOnDeviceWithOrderNCHW p st) = None"
      and dF0: "dims (FILTER st) ! 0 = M"
      and dY: "dims (OUTPUT st) = [N, M, oH, oW]"
      and b: "n < N" "m < M" "y < oH" "x < oW"
  shows "at4 (OUTPUT (snd (RunOnDeviceWithOrderNCHW p st))) n m y x =
         data (contract_NCHW p st) ! (((n * oH + y) * oW + x) * M + m) + data (BIAS st) ! m"
proof -
  let ?k = "((n * oH + y) * oW + x) * M + m"
  have lt: "?k < N * oH * oW * M" using b(1,3,4,2) by (rule size4)
  have "at4 (OUTPUT (snd (RunOnDeviceWithOrderNCHW p st))) n m y x =
        conv_NCHW p st ! (((n * M + m) * oH + y) * oW + x)"
    by (simp add: run_NCHW_success(3)[OF valid] at4_def dY)
  also have "\<dots> = at4 (biased_NCHW p st) n y x m"
    by (rule conv_NCHW_nth[OF dF0 dY b])
  also have "\<dots> = data (biased_NCHW p st) ! ?k"
    by (simp add: at4_def biased_NCHW_dims contract_NCHW_dims[OF dY])
  also have "\<dots> = data (contract_NCHW p st) ! ?k + data (BIAS st) ! (?k mod M)"
    by (rule biased_NCHW_nth[OF dF0 dY lt])
  also have "?k mod M = m" using b(2) by simp
  finally show ?thesis .
qed

section \<open>The outcome of the shape calculator\<close>

lemma SetOutputSize_NHWC_NoneD:
  assumes "SetOutputSize p NHWC X Y M = None"
  shows "int (dims Y ! 1) = out_dim (dims X ! 1) (kernel_h p) (stride_h p) (dilation_h p) (pad_t p) (pad_b p)"
        "int (dims Y ! 2) = out_dim (dims X ! 2) (kernel_w p) (stride_w p) (dilation_w p) (pad_l p) (pad_r p)"
proof -
  from assms have "map int (dims Y) =
      [int (dims X ! 0),
       out_dim (dims X ! 1) (kernel_h p) (stride_h p) (dilation_h p) (pad_t p) (pad_b p),
       out_dim (dims X ! 2) (kernel_w p) (stride_w p) (dilation_w p) (pad_l p) (pad_r p),
       int M]"
    by (simp add: SetOutputSize_def Let_def split: if_splits)
  then obtain a b c d where "dims Y = [a, b, c, d]"
    "int b = out_dim (dims X ! 1) (kernel_h p) (stride_h p) (dilation_h p) (pad_t p) (pad_b p)"
    "int c = out_dim (dims X ! 2) (kernel_w p) (stride_w p) (dilation_w p) (pad_l p) (pad_r p)"
    by (auto simp: map_eq_Cons_conv)
  then show
    "int (dims Y ! 1) = out_dim (dims X ! 1) (kernel_h p) (stride_h p) (dilation_h p) (pad_t p) (pad_b p)"
    "int (dims Y ! 2) = out_dim (dims X ! 2) (kernel_w p) (stride_w p) (dilation_w p) (pad_l p) (pad_r p)"
    by simp_all
qed

lemma SetOutputSize_NCHW_NoneD:
  assumes "SetOutputSize p NCHW X Y M = None"
  shows "int (dims Y ! 2) = out_dim (dims X ! 2) (kernel_h p) (stride_h p) (dilation_h p) (pad_t p) (pad_b p)"
        "int (dims Y ! 3) = out_dim (dims X ! 3) (kernel_w p) (stride_w p) (dilation_w p) (pad_l p) (pad_r p)"
proof -
  from assms have "map int (dims Y) =
      [int (dims X ! 0), int M,
       out_dim (dims X ! 2) (kernel_h p) (stride_h p) (dilation_h p) (pad_t p) (pad_b p),
       out_dim (dims X ! 3) (kernel_w p) (stride_w p) (dilation_w p) (pad_l p) (pad_r p)]"
    by (simp add: SetOutputSize_def Let_def split: if_splits)
  then obtain a b c d where "dims Y = [a, b, c, d]"
    "int c = out_dim (dims X ! 2) (kernel_h p) (stride_h p) (dilation_h p) (pad_t p) (pad_b p)"
    "int d = out_dim (dims X ! 3) (kernel_w p) (stride_w p) (dilation_w p) (pad_l p) (pad_r p)"
    by (auto simp: map_eq_Cons_conv)
  then show
    "int (dims Y ! 2) = out_dim (dims X ! 2) (kernel_h p) (stride_h p) (dilation_h p) (pad_t p) (pad_b p)"
    "int (dims Y ! 3) = out_dim (dims X ! 3) (kernel_w p) (stride_w p) (dilation_w p) (pad_l p) (pad_r p)"
    by simp_all
qed

lemma SetOutputSize_cases:
  "SetOutputSize p order X Y M = None \<or> SetOutputSize p order X Y M = Some InconsistentOutputSize"
  by (simp add: SetOutputSize_def Let_def)

lemma check_NHWC_SetOutputSize:
  "check_NHWC p st = None \<Longrightarrow>
   SetOutputSize p NHWC (INPUT st) (OUTPUT st) (dims (FILTER st) ! 0) = None"
  by (simp add: check_NHWC_def Let_def split: if_splits)

lemma check_NCHW_SetOutputSize:
  "check_NCHW p st = None \<Longrightarrow>
   SetOutputSize p NCHW (INPUT st) (OUTPUT st) (dims (FILTER st) ! 0) = None"
  by (simp add: check_NCHW_def Let_def split: if_splits)

lemma check_NHWC_other_output:
  "check_NHWC p (st\<lparr>OUTPUT := Y\<rparr>) = None \<Longrightarrow>
   check_NHWC p st = SetOutputSize p NHWC (INPUT st) (OUTPUT st) (dims (FILTER st) ! 0)"
  by (simp add: check_NHWC_def Let_def split: if_splits)

lemma check_NCHW_other_output:
  "check_NCHW p (st\<lparr>OUTPUT := Y\<rparr>) = None \<Longrightarrow>
   check_NCHW p st = SetOutputSize p NCHW (INPUT st) (OUTPUT st) (dims (FILTER st) ! 0)"
  by (simp add: check_NCHW_def Let_def split: if_splits)

lemma run_NHWC_failure:
  "check_NHWC p st = Some e \<Longrightarrow> RunOnDeviceWithOrderNHWC p st = (Some e, st)"
  by (simp add: RunOnDeviceWithOrderNHWC_def)

lemma run_NCHW_failure:
  "check_NCHW p st = Some e \<Longrightarrow> RunOnDeviceWithOrderNCHW p st = (Some e, st)"
  by (simp add: RunOnDeviceWithOrderNCHW_def)

lemma NHWC_output_dims:
  assumes "fst (RunOnDeviceWithOrderNHWC p st) = None"
  shows "int (dims (OUTPUT (snd (RunOnDeviceWithOrderNHWC p st))) ! 1) =
        out_dim (dims (INPUT st) ! 1) (kernel_h p) (stride_h p) (dilation_h p) (pad_t p) (pad_b p) \<and>
      int (dims (OUTPUT (snd (RunOnDeviceWithOrderNHWC p st))) ! 2) =
        out_dim (dims (INPUT st) ! 2) (kernel_w p) (stride_w p) (dilation_w p) (pad_l p) (pad_r p)"
  using SetOutputSize_NHWC_NoneD[OF check_NHWC_SetOutputSize[OF run_NHWC_success(1)[OF assms]]]
  by (simp add: run_NHWC_success(3)[OF assms])

lemma NCHW_output_dims:
  assumes "fst (RunOnDeviceWithOrderNCHW p st) = None"
  shows "int (dims (OUTPUT (snd (RunOnDeviceWithOrderNCHW p st))) ! 2) =
        out_dim (dims (INPUT st) ! 2) (kernel_h p) (stride_h p) (dilation_h p) (pad_t p) (pad_b p) \<and>
      int (dims (OUTPUT (snd (RunOnDeviceWithOrderNCHW p st))) ! 3) =
        out_dim (dims (INPUT st) ! 3) (kernel_w p) (stride_w p) (dilation_w p) (pad_l p) (pad_r p)"
  using SetOutputSize_NCHW_NoneD[OF check_NCHW_SetOutputSize[OF run_NCHW_success(1)[OF assms]]]
  by (simp add: run_NCHW_success(3)[OF assms])

lemma NHWC_wrong_output_size:
  assumes "int (dims (OUTPUT st) ! 1) \<noteq>
        out_dim (dims (INPUT st) ! 1) (kernel_h p) (stride_h p) (dilation_h p) (pad_t p) (pad_b p) \<or>
    int (dims (OUTPUT st) ! 2) \<noteq>
        out_dim (dims (INPUT st) ! 2) (kernel_w p) (stride_w p) (dilation_w p) (pad_l p) (pad_r p)"
  shows "fst (RunOnDeviceWithOrderNHWC p st) \<noteq> None \<and>
        snd (RunOnDeviceWithOrderNHWC p st) = st \<and>
        (check_NHWC p (st\<lparr>OUTPUT := Y\<rparr>) = None \<longrightarrow>
           fst (RunOnDeviceWithOrderNHWC p st) = Some InconsistentOutputSize)"
proof -
  have S: "SetOutputSize p NHWC (INPUT st) (OUTPUT st) (dims (FILTER st) ! 0) =
           Some InconsistentOutputSize"
    using SetOutputSize_cases[where p=p and order=NHWC and X="INPUT st" and Y="OUTPUT st"
                                and M="dims (FILTER st) ! 0"]
      SetOutputSize_NHWC_NoneD[where p=p and X="INPUT st" and Y="OUTPUT st"
                                and M="dims (FILTER st) ! 0"] assms
    by blast
  have "check_NHWC p st \<noteq> None"
    using check_NHWC_SetOutputSize[where p=p and st=st] S by auto
  then obtain e where e: "check_NHWC p st = Some e" by auto
  have "check_NHWC p (st\<lparr>OUTPUT := Y\<rparr>) = None \<Longrightarrow> e = InconsistentOutputSize"
    using check_NHWC_other_output[where p=p and st=st and Y=Y] S e by simp
  then show ?thesis
    by (simp add: run_NHWC_failure[OF e])
qed

lemma NCHW_wrong_output_size:
  assumes "int (dims (OUTPUT st) ! 2) \<noteq>
        out_dim (dims (INPUT st) ! 2) (kernel_h p) (stride_h p) (dilation_h p) (pad_t p) (pad_b p) \<or>
    int (dims (OUTPUT st) ! 3) \<noteq>
        out_dim (dims (INPUT st) ! 3) (kernel_w p) (stride_w p) (dilation_w p) (pad_l p) (pad_r p)"
  shows "fst (RunOnDeviceWithOrderNCHW p st) \<noteq> None \<and>
        snd (RunOnDeviceWithOrderNCHW p st) = st \<and>
        (check_NCHW p (st\<lparr>OUTPUT := Y\<rparr>) = None \<longrightarrow>
           fst (RunOnDeviceWithOrderNCHW p st) = Some InconsistentOutputSize)"
proof -
  have S: "SetOutputSize p NCHW (INPUT st) (OUTPUT st) (dims (FILTER st) ! 0) =
           Some InconsistentOutputSize"
    using SetOutputSize_cases[where p=p and order=NCHW and X="INPUT st" and Y="OUTPUT st"
                                and M="dims (FILTER st) ! 0"]
      SetOutputSize_NCHW_NoneD[where p=p and X="INPUT st" and Y="OUTPUT st"
                                and M="dims (FILTER st) ! 0"] assms
    by blast
  have "check_NCHW p st \<noteq> None"
    using check_NCHW_SetOutputSize[where p=p and st=st] S by auto
  then obtain e where e: "check_NCHW p st = Some e" by auto
  have "check_NCHW p (st\<lparr>OUTPUT := Y\<rparr>) = None \<Longrightarrow> e = InconsistentOutputSize"
    using check_NCHW_other_output[where p=p and st=st and Y=Y] S e by simp
  then show ?thesis
    by (simp add: run_NCHW_failure[OF e])
qed

section \<open>The channel-last result\<close>

text \<open>
  Claim C1. For a channel-last call that passes validation, on well-formed tensors and
  with positive strides, the output element at batch \<open>n\<close>, row \<open>y\<close>, column
  \<open>x\<close> and output channel \<open>m\<close> is \<open>bias[m]\<close> plus the sum, over kernel row
  \<open>i\<close>, kernel column \<open>j\<close> and input channel \<open>c\<close>, of the input at row
  \<open>y * stride_h - pad_t + i * dilation_h\<close> and column
  \<open>x * stride_w - pad_l + j * dilation_w\<close> times \<open>filter[m, i, j, c]\<close>, where a
  position outside the image reads as zero.
\<close>

theorem nhwc_output_formula:
  fixes st :: "'a::{comm_monoid_add,times} blobs"
  assumes "fst (RunOnDeviceWithOrderNHWC p st) = None"
      and "ndim (INPUT st) = 4" "wf_tensor (INPUT st)" "wf_tensor (FILTER st)"
          "wf_tensor (BIAS st)" "wf_tensor (OUTPUT st)"
      and "0 < stride_h p" "0 < stride_w p"
      and "n < dims (OUTPUT st) ! 0" "y < dims (OUTPUT st) ! 1"
          "x < dims (OUTPUT st) ! 2" "m < dims (OUTPUT st) ! 3"
  shows "at4 (OUTPUT (snd (RunOnDeviceWithOrderNHWC p st))) n y x m =
         data (BIAS st) ! m +
         (\<Sum>i<kernel_h p. \<Sum>j<kernel_w p. \<Sum>c<dims (INPUT st) ! 3.
            zero_fill_NHWC (INPUT st) n
               (int y * int (stride_h p) - int (pad_t p) + int i * int (dilation_h p))
               (int x * int (stride_w p) - int (pad_l p) + int j * int (dilation_w p)) c *
            at4 (FILTER st) m i j c)"
  using assms by (rule NHWC_element)

theorem nhwc_output_formula_witness:
  "fst (RunOnDeviceWithOrderNHWC ex_params ex_NHWC) = None \<and>
   at4 (OUTPUT (snd (RunOnDeviceWithOrderNHWC ex_params ex_NHWC))) 0 1 1 1 =
         data (BIAS ex_NHWC) ! 1 +
         (\<Sum>i<kernel_h ex_params. \<Sum>j<kernel_w ex_params. \<Sum>c<dims (INPUT ex_NHWC) ! 3.
            zero_fill_NHWC (INPUT ex_NHWC) 0
               (int 1 * int (stride_h ex_params) - int (pad_t ex_params) + int i * int (dilation_h ex_params))
               (int 1 * int (stride_w ex_params) - int (pad_l ex_params) + int j * int (dilation_w ex_params)) c *
            at4 (FILTER ex_NHWC) 1 i j c)"
proof -
  have v: "fst (RunOnDeviceWithOrderNHWC ex_params ex_NHWC) = None"
    by (simp add: RunOnDeviceWithOrderNHWC_def check_NHWC_def SetOutputSize_def out_dim_def
          ndim_def ex_params_def ex_NHWC_def ex_bias_def Let_def)
  have w: "ndim (INPUT ex_NHWC) = 4" "wf_tensor (INPUT ex_NHWC)" "wf_tensor (FILTER ex_NHWC)"
          "wf_tensor (BIAS ex_NHWC)" "wf_tensor (OUTPUT ex_NHWC)"
    by (simp_all add: ndim_def wf_tensor_def ex_NHWC_def ex_bias_def)
  have p: "0 < stride_h ex_params" "0 < stride_w ex_params"
    by (simp_all add: ex_params_def)
  have b: "0 < dims (OUTPUT ex_NHWC) ! 0" "1 < dims (OUTPUT ex_NHWC) ! 1"
          "1 < dims (OUTPUT ex_NHWC) ! 2" "1 < dims (OUTPUT ex_NHWC) ! 3"
    by (simp_all add: ex_NHWC_def)
  from v nhwc_output_formula[OF v w p b] show ?thesis by simp
qed

section \<open>The two layouts\<close>

text \<open>
  Claim C2. Let a channel-first call and a channel-last call with the same parameters
  both pass validation, on well-formed tensors that hold the same logical values: the
  inputs agree as \<open>X_first[n, c, h, w] = X_last[n, h, w, c]\<close>, the filters as
  \<open>filter_first[m, c, i, j] = filter_last[m, i, j, c]\<close>, and the biases are equal.
  Then the outputs have the same dimensions up to the order of the layout, and
  \<open>output_first[n, m, y, x] = output_last[n, y, x, m]\<close> for every output element.
  The two calls hand the same patch matrix and the same filter matrix to the
  contraction, so no law of the arithmetic is needed.
\<close>

theorem layouts_agree:
  fixes stF stL :: "'a::{zero,plus,times} blobs"
  assumes validF: "fst (RunOnDeviceWithOrderNCHW p stF) = None"
      and validL: "fst (RunOnDeviceWithOrderNHWC p stL) = None"
      and wf: "wf_tensor (INPUT stF)" "wf_tensor (FILTER stF)" "wf_tensor (BIAS stF)"
              "wf_tensor (OUTPUT stF)"
              "wf_tensor (INPUT stL)" "wf_tensor (FILTER stL)" "wf_tensor (BIAS stL)"
              "wf_tensor (OUTPUT stL)"
      and dXF: "dims (INPUT stF) = [N, C, H, W]"
      and dXL: "dims (INPUT stL) = [N, H, W, C]"
      and dFF: "dims (FILTER stF) = [M, C, kernel_h p, kernel_w p]"
      and dFL: "dims (FILTER stL) = [M, kernel_h p, kernel_w p, C]"
      and X_eq: "\<forall>n<N. \<forall>c<C. \<forall>h<H. \<forall>w<W. at4 (INPUT stF) n c h w = at4 (INPUT stL) n h w c"
      and F_eq: "\<forall>m<M. \<forall>c<C. \<forall>i<kernel_h p. \<forall>j<kernel_w p.
                   at4 (FILTER stF) m c i j = at4 (FILTER stL) m i j c"
      and B_eq: "\<forall>m<M. data (BIAS stF) ! m = data (BIAS stL) ! m"
      and b: "n < dims (OUTPUT stF) ! 0" "m < dims (OUTPUT stF) ! 1"
             "y < dims (OUTPUT stF) ! 2" "x < dims (OUTPUT stF) ! 3"
  shows "dims (OUTPUT stL) =
           [dims (OUTPUT stF) ! 0, dims (OUTPUT stF) ! 2, dims (OUTPUT stF) ! 3,
            dims (OUTPUT stF) ! 1] \<and>
         at4 (OUTPUT (snd (RunOnDeviceWithOrderNCHW p stF))) n m y x =
         at4 (OUTPUT (snd (RunOnDeviceWithOrderNHWC p stL))) n y x m"
proof -
  have ndF: "ndim (INPUT stF) = 4" and ndL: "ndim (INPUT stL) = 4"
    by (simp_all add: ndim_def dXF dXL)
  from run_NCHW_success(1)[OF validF] ndF obtain oH oW where dYF:
    "dims (OUTPUT stF) = [N, M, oH, oW]"
    "int oH = out_dim H (kernel_h p) (stride_h p) (dilation_h p) (pad_t p) (pad_b p)"
    "int oW = out_dim W (kernel_w p) (stride_w p) (dilation_w p) (pad_l p) (pad_r p)"
    by (rule check_NCHW_NoneD) (simp add: dXF dFF)
  from run_NHWC_success(1)[OF validL] ndL obtain oH' oW' where dYL':
    "dims (OUTPUT stL) = [N, oH', oW', M]"
    "int oH' = out_dim H (kernel_h p) (stride_h p) (dilation_h p) (pad_t p) (pad_b p)"
    "int oW' = out_dim W (kernel_w p) (stride_w p) (dilation_w p) (pad_l p) (pad_r p)"
    by (rule check_NHWC_NoneD) (simp add: dXL dFL)
  have o: "oH' = oH" "oW' = oW" using dYF(2,3) dYL'(2,3) by simp_all
  have dYL: "dims (OUTPUT stL) = [N, oH, oW, M]" using dYL'(1) by (simp add: o)
  from b have b': "n < N" "m < M" "y < oH" "x < oW" by (simp_all add: dYF(1))
  have dF0F: "dims (FILTER stF) ! 0 = M" and dF0L: "dims (FILTER stL) ! 0 = M"
    by (simp_all add: dFF dFL)
  let ?k = "((n * oH + y) * oW + x) * M + m"
  have lt: "?k < N * oH * oW * M" using b'(1,3,4,2) by (rule size4)
  have "at4 (OUTPUT (snd (RunOnDeviceWithOrderNCHW p stF))) n m y x =
        data (contract_NCHW p stF) ! ?k + data (BIAS stF) ! m"
    by (rule NCHW_biased_element[OF validF dF0F dYF(1) b'])
  also have "data (contract_NCHW p stF) ! ?k = contract_NHWC p stL ! ?k"
    by (rule contractions_agree[OF dXF dXL dFF dFL dYF(1) dYL X_eq F_eq lt])
  also have "data (BIAS stF) ! m = data (BIAS stL) ! m" using B_eq b'(2) by blast
  also have "contract_NHWC p stL ! ?k + data (BIAS stL) ! m =
             at4 (OUTPUT (snd (RunOnDeviceWithOrderNHWC p stL))) n y x m"
    by (rule NHWC_biased_element[OF validL dF0L dYL b'(1,3,4,2), symmetric])
  finally show ?thesis by (simp add: dYF(1) dYL)
qed

theorem layouts_agree_witness:
  "fst (RunOnDeviceWithOrderNCHW ex_params ex_NCHW) = None \<and>
   fst (RunOnDeviceWithOrderNHWC ex_params ex_NHWC) = None \<and>
   at4 (INPUT ex_NCHW) 0 1 0 2 = at4 (INPUT ex_NHWC) 0 0 2 1 \<and>
   at4 (FILTER ex_NCHW) 1 0 1 0 = at4 (FILTER ex_NHWC) 1 1 0 0 \<and>
   at4 (OUTPUT (snd (RunOnDeviceWithOrderNCHW ex_params ex_NCHW))) 0 1 1 0 =
   at4 (OUTPUT (snd (RunOnDeviceWithOrderNHWC ex_params ex_NHWC))) 0 1 0 1"
proof -
  have vF: "fst (RunOnDeviceWithOrderNCHW ex_params ex_NCHW) = None"
    by (simp add: ex_NCHW_run)
  have vL: "fst (RunOnDeviceWithOrderNHWC ex_params ex_NHWC) = None"
    by (simp add: ex_NHWC_run)
  have w: "wf_tensor (INPUT ex_NCHW)" "wf_tensor (FILTER ex_NCHW)" "wf_tensor (BIAS ex_NCHW)"
          "wf_tensor (OUTPUT ex_NCHW)"
          "wf_tensor (INPUT ex_NHWC)" "wf_tensor (FILTER ex_NHWC)" "wf_tensor (BIAS ex_NHWC)"
          "wf_tensor (OUTPUT ex_NHWC)"
    by (simp_all add: wf_tensor_def ex_NCHW_def ex_NHWC_def ex_bias_def)
  have d: "dims (INPUT ex_NCHW) = [1, 2, 2, 3]" "dims (INPUT ex_NHWC) = [1, 2, 3, 2]"
          "dims (FILTER ex_NCHW) = [2, 2, kernel_h ex_params, kernel_w ex_params]"
          "dims (FILTER ex_NHWC) = [2, kernel_h ex_params, kernel_w ex_params, 2]"
    by (simp_all add: ex_NCHW_def ex_NHWC_def ex_params_def)
  have X: "\<forall>n<1. \<forall>c<2. \<forall>h<2. \<forall>w<3. at4 (INPUT ex_NCHW) n c h w = at4 (INPUT ex_NHWC) n h w c"
    by (simp add: at4_def ex_NCHW_def ex_NHWC_def less_Suc_eq numeral_2_eq_2 numeral_3_eq_3)
  have F: "\<forall>m<2. \<forall>c<2. \<forall>i<kernel_h ex_params. \<forall>j<kernel_w ex_params.
             at4 (FILTER ex_NCHW) m c i j = at4 (FILTER ex_NHWC) m i j c"
    by (simp add: at4_def ex_NCHW_def ex_NHWC_def ex_params_def less_Suc_eq numeral_2_eq_2)
  have B: "\<forall>m<2. data (BIAS ex_NCHW) ! m = data (BIAS ex_NHWC) ! m"
    by (simp add: ex_NCHW_def ex_NHWC_def)
  have b: "0 < dims (OUTPUT ex_NCHW) ! 0" "1 < dims (OUTPUT ex_NCHW) ! 1"
          "1 < dims (OUTPUT ex_NCHW) ! 2" "0 < dims (OUTPUT ex_NCHW) ! 3"
    by (simp_all add: ex_NCHW_def)
  have e: "at4 (INPUT ex_NCHW) 0 1 0 2 = at4 (INPUT ex_NHWC) 0 0 2 1"
          "at4 (FILTER ex_NCHW) 1 0 1 0 = at4 (FILTER ex_NHWC) 1 1 0 0"
    by (simp_all add: at4_def ex_NCHW_def ex_NHWC_def)
  from layouts_agree[OF vF vL w d X F B b] vF vL e show ?thesis by blast
qed

section \<open>The bias\<close>

text \<open>
  Claim C3. In a call that passes validation, every element of the output is the element
  the contraction produced at the same batch index, spatial position and output channel
  \<open>m\<close>, plus \<open>bias[m]\<close>: in the channel-last entry point the contraction is
  what lines 169 to 186 leave in the buffer of \<open>Y\<close>, in the channel-first one it is
  the local channel-last tensor \<open>Y_tensor\<close>, and the output is read in channel-first
  order.
\<close>

theorem bias_added_once_per_channel:
  fixes st st' :: "'a::{zero,plus,times} blobs"
  shows
  "(fst (RunOnDeviceWithOrderNHWC p st) = None \<and> ndim (INPUT st) = 4 \<and>
    n < dims (OUTPUT st) ! 0 \<and> y < dims (OUTPUT st) ! 1 \<and>
    x < dims (OUTPUT st) ! 2 \<and> m < dims (OUTPUT st) ! 3
    \<longrightarrow> at4 (OUTPUT (snd (RunOnDeviceWithOrderNHWC p st))) n y x m =
        at4 ((OUTPUT st)\<lparr>data := contract_NHWC p st\<rparr>) n y x m + data (BIAS st) ! m) \<and>
   (fst (RunOnDeviceWithOrderNCHW p' st') = None \<and> ndim (INPUT st') = 4 \<and>
    n' < dims (OUTPUT st') ! 0 \<and> m' < dims (OUTPUT st') ! 1 \<and>
    y' < dims (OUTPUT st') ! 2 \<and> x' < dims (OUTPUT st') ! 3
    \<longrightarrow> at4 (OUTPUT (snd (RunOnDeviceWithOrderNCHW p' st'))) n' m' y' x' =
        at4 (contract_NCHW p' st') n' y' x' m' + data (BIAS st') ! m')"
proof (intro conjI impI)
  assume a: "fst (RunOnDeviceWithOrderNHWC p st) = None \<and> ndim (INPUT st) = 4 \<and>
    n < dims (OUTPUT st) ! 0 \<and> y < dims (OUTPUT st) ! 1 \<and>
    x < dims (OUTPUT st) ! 2 \<and> m < dims (OUTPUT st) ! 3"
  then have v: "fst (RunOnDeviceWithOrderNHWC p st) = None" and nd: "ndim (INPUT st) = 4"
    by simp_all
  from run_NHWC_success(1)[OF v] nd obtain N H W C M oH oW where d:
    "dims (INPUT st) = [N, H, W, C]"
    "dims (FILTER st) = [M, kernel_h p, kernel_w p, C]"
    "dims (BIAS st) = [M]"
    "dims (OUTPUT st) = [N, oH, oW, M]"
    by (rule check_NHWC_NoneD)
  from a have b: "n < N" "y < oH" "x < oW" "m < M" by (simp_all add: d(4))
  have dF0: "dims (FILTER st) ! 0 = M" by (simp add: d(2))
  show "at4 (OUTPUT (snd (RunOnDeviceWithOrderNHWC p st))) n y x m =
        at4 ((OUTPUT st)\<lparr>data := contract_NHWC p st\<rparr>) n y x m + data (BIAS st) ! m"
    using NHWC_biased_element[OF v dF0 d(4) b] by (simp add: at4_def d(4))
next
  assume a: "fst (RunOnDeviceWithOrderNCHW p' st') = None \<and> ndim (INPUT st') = 4 \<and>
    n' < dims (OUTPUT st') ! 0 \<and> m' < dims (OUTPUT st') ! 1 \<and>
    y' < dims (OUTPUT st') ! 2 \<and> x' < dims (OUTPUT st') ! 3"
  then have v: "fst (RunOnDeviceWithOrderNCHW p' st') = None" and nd: "ndim (INPUT st') = 4"
    by simp_all
  from run_NCHW_success(1)[OF v] nd obtain N C H W M oH oW where d:
    "dims (INPUT st') = [N, C, H, W]"
    "dims (FILTER st') = [M, C, kernel_h p', kernel_w p']"
    "dims (BIAS st') = [M]"
    "dims (OUTPUT st') = [N, M, oH, oW]"
    by (rule check_NCHW_NoneD)
  from a have b: "n' < N" "m' < M" "y' < oH" "x' < oW" by (simp_all add: d(4))
  have dF0: "dims (FILTER st') ! 0 = M" by (simp add: d(2))
  show "at4 (OUTPUT (snd (RunOnDeviceWithOrderNCHW p' st'))) n' m' y' x' =
        at4 (contract_NCHW p' st') n' y' x' m' + data (BIAS st') ! m'"
    using NCHW_biased_element[OF v dF0 d(4) b]
    by (simp add: at4_def contract_NCHW_dims[OF d(4)])
qed

theorem bias_added_once_per_channel_witness:
  "fst (RunOnDeviceWithOrderNHWC ex_params ex_NHWC) = None \<and>
   at4 (OUTPUT (snd (RunOnDeviceWithOrderNHWC ex_params ex_NHWC))) 0 1 0 1 =
     at4 ((OUTPUT ex_NHWC)\<lparr>data := contract_NHWC ex_params ex_NHWC\<rparr>) 0 1 0 1 +
     data (BIAS ex_NHWC) ! 1 \<and>
   fst (RunOnDeviceWithOrderNCHW ex_params ex_NCHW) = None \<and>
   at4 (OUTPUT (snd (RunOnDeviceWithOrderNCHW ex_params ex_NCHW))) 0 1 1 0 =
     at4 (contract_NCHW ex_params ex_NCHW) 0 1 0 1 + data (BIAS ex_NCHW) ! 1"
proof -
  have vL: "fst (RunOnDeviceWithOrderNHWC ex_params ex_NHWC) = None"
    by (simp add: ex_NHWC_run)
  have vF: "fst (RunOnDeviceWithOrderNCHW ex_params ex_NCHW) = None"
    by (simp add: ex_NCHW_run)
  have hL: "ndim (INPUT ex_NHWC) = 4 \<and>
    0 < dims (OUTPUT ex_NHWC) ! 0 \<and> 1 < dims (OUTPUT ex_NHWC) ! 1 \<and>
    0 < dims (OUTPUT ex_NHWC) ! 2 \<and> 1 < dims (OUTPUT ex_NHWC) ! 3"
    by (simp add: ndim_def ex_NHWC_def)
  have hF: "ndim (INPUT ex_NCHW) = 4 \<and>
    0 < dims (OUTPUT ex_NCHW) ! 0 \<and> 1 < dims (OUTPUT ex_NCHW) ! 1 \<and>
    1 < dims (OUTPUT ex_NCHW) ! 2 \<and> 0 < dims (OUTPUT ex_NCHW) ! 3"
    by (simp add: ndim_def ex_NCHW_def)
  from bias_added_once_per_channel[where p=ex_params and st=ex_NHWC and n=0 and y=1 and x=0
         and m=1 and p'=ex_params and st'=ex_NCHW and n'=0 and m'=1 and y'=1 and x'=0]
    vL vF hL hF
  show ?thesis by blast
qed

section \<open>The size of the output\<close>

text \<open>
  Claim C7. After a successful call the height of the output is
  \<open>floor((H + pad_t + pad_b - dilation_h * (kernel_h - 1) - 1) / stride_h) + 1\<close>,
  and its width likewise. A call whose output buffer has another height or width fails
  and leaves the blobs as they were; the failure is \<open>InconsistentOutputSize\<close>
  whenever the call would pass validation with some output buffer \<open>Y\<close>, that is,
  whenever the shape checks on input, filter and bias pass.
\<close>

theorem output_size_consistency:
  "(fst (RunOnDeviceWithOrderNHWC p st) = None \<longrightarrow>
      int (dims (OUTPUT (snd (RunOnDeviceWithOrderNHWC p st))) ! 1) =
        out_dim (dims (INPUT st) ! 1) (kernel_h p) (stride_h p) (dilation_h p) (pad_t p) (pad_b p) \<and>
      int (dims (OUTPUT (snd (RunOnDeviceWithOrderNHWC p st))) ! 2) =
        out_dim (dims (INPUT st) ! 2) (kernel_w p) (stride_w p) (dilation_w p) (pad_l p) (pad_r p)) \<and>
   (int (dims (OUTPUT st) ! 1) \<noteq>
        out_dim (dims (INPUT st) ! 1) (kernel_h p) (stride_h p) (dilation_h p) (pad_t p) (pad_b p) \<or>
    int (dims (OUTPUT st) ! 2) \<noteq>
        out_dim (dims (INPUT st) ! 2) (kernel_w p) (stride_w p) (dilation_w p) (pad_l p) (pad_r p)
    \<longrightarrow> fst (RunOnDeviceWithOrderNHWC p st) \<noteq> None \<and>
        snd (RunOnDeviceWithOrderNHWC p st) = st \<and>
        (check_NHWC p (st\<lparr>OUTPUT := Y\<rparr>) = None \<longrightarrow>
           fst (RunOnDeviceWithOrderNHWC p st) = Some InconsistentOutputSize)) \<and>
   (fst (RunOnDeviceWithOrderNCHW p st) = None \<longrightarrow>
      int (dims (OUTPUT (snd (RunOnDeviceWithOrderNCHW p st))) ! 2) =
        out_dim (dims (INPUT st) ! 2) (kernel_h p) (stride_h p) (dilation_h p) (pad_t p) (pad_b p) \<and>
      int (dims (OUTPUT (snd (RunOnDeviceWithOrderNCHW p st))) ! 3) =
        out_dim (dims (INPUT st) ! 3) (kernel_w p) (stride_w p) (dilation_w p) (pad_l p) (pad_r p)) \<and>
   (int (dims (OUTPUT st) ! 2) \<noteq>
        out_dim (dims (INPUT st) ! 2) (kernel_h p) (stride_h p) (dilation_h p) (pad_t p) (pad_b p) \<or>
    int (dims (OUTPUT st) ! 3) \<noteq>
        out_dim (dims (INPUT st) ! 3) (kernel_w p) (stride_w p) (dilation_w p) (pad_l p) (pad_r p)
    \<longrightarrow> fst (RunOnDeviceWithOrderNCHW p st) \<noteq> None \<and>
        snd (RunOnDeviceWithOrderNCHW p st) = st \<and>
        (check_NCHW p (st\<lparr>OUTPUT := Y\<rparr>) = None \<longrightarrow>
           fst (RunOnDeviceWithOrderNCHW p st) = Some InconsistentOutputSize))"
  using NHWC_output_dims[where p=p and st=st] NHWC_wrong_output_size[where p=p and st=st and Y=Y]
        NCHW_output_dims[where p=p and st=st] NCHW_wrong_output_size[where p=p and st=st and Y=Y]
  by blast

theorem output_size_consistency_witness:
  "out_dim (dims (INPUT ex_NHWC) ! 1) (kernel_h ex_params) (stride_h ex_params)
      (dilation_h ex_params) (pad_t ex_params) (pad_b ex_params) = 2 \<and>
   int (dims (OUTPUT (snd (RunOnDeviceWithOrderNHWC ex_params ex_NHWC))) ! 1) = 2 \<and>
   int (dims (OUTPUT (snd (RunOnDeviceWithOrderNCHW ex_params ex_NCHW))) ! 2) = 2 \<and>
   dims (OUTPUT ex_NHWC_bad_output) ! 1 = 3 \<and>
   RunOnDeviceWithOrderNHWC ex_params ex_NHWC_bad_output =
     (Some InconsistentOutputSize, ex_NHWC_bad_output) \<and>
   dims (OUTPUT ex_NCHW_bad_output) ! 2 = 3 \<and>
   RunOnDeviceWithOrderNCHW ex_params ex_NCHW_bad_output =
     (Some InconsistentOutputSize, ex_NCHW_bad_output)"
proof -
  have vL: "fst (RunOnDeviceWithOrderNHWC ex_params ex_NHWC) = None"
    by (simp add: ex_NHWC_run)
  have vF: "fst (RunOnDeviceWithOrderNCHW ex_params ex_NCHW) = None"
    by (simp add: ex_NCHW_run)
  have o: "out_dim (dims (INPUT ex_NHWC) ! 1) (kernel_h ex_params) (stride_h ex_params)
      (dilation_h ex_params) (pad_t ex_params) (pad_b ex_params) = 2"
      "out_dim (dims (INPUT ex_NCHW) ! 2) (kernel_h ex_params) (stride_h ex_params)
      (dilation_h ex_params) (pad_t ex_params) (pad_b ex_params) = 2"
    by (simp_all add: out_dim_def ex_NHWC_def ex_NCHW_def ex_params_def)
  have iL: "INPUT ex_NHWC_bad_output = INPUT ex_NHWC"
           "ex_NHWC_bad_output\<lparr>OUTPUT := OUTPUT ex_NHWC\<rparr> = ex_NHWC"
           "dims (OUTPUT ex_NHWC_bad_output) ! 1 = 3"
    by (simp_all add: ex_NHWC_bad_output_def)
  have iF: "INPUT ex_NCHW_bad_output = INPUT ex_NCHW"
           "ex_NCHW_bad_output\<lparr>OUTPUT := OUTPUT ex_NCHW\<rparr> = ex_NCHW"
           "dims (OUTPUT ex_NCHW_bad_output) ! 2 = 3"
    by (simp_all add: ex_NCHW_bad_output_def)
  have cL: "check_NHWC ex_params (ex_NHWC_bad_output\<lparr>OUTPUT := OUTPUT ex_NHWC\<rparr>) = None"
    unfolding iL(2) using vL by (rule run_NHWC_success(1))
  have cF: "check_NCHW ex_params (ex_NCHW_bad_output\<lparr>OUTPUT := OUTPUT ex_NCHW\<rparr>) = None"
    unfolding iF(2) using vF by (rule run_NCHW_success(1))
  have dL: "int (dims (OUTPUT ex_NHWC_bad_output) ! 1) \<noteq>
      out_dim (dims (INPUT ex_NHWC_bad_output) ! 1) (kernel_h ex_params) (stride_h ex_params)
      (dilation_h ex_params) (pad_t ex_params) (pad_b ex_params)"
    using iL o by simp
  have dF: "int (dims (OUTPUT ex_NCHW_bad_output) ! 2) \<noteq>
      out_dim (dims (INPUT ex_NCHW_bad_output) ! 2) (kernel_h ex_params) (stride_h ex_params)
      (dilation_h ex_params) (pad_t ex_params) (pad_b ex_params)"
    using iF o by simp
  have rL: "int (dims (OUTPUT (snd (RunOnDeviceWithOrderNHWC ex_params ex_NHWC))) ! 1) = 2"
    using output_size_consistency[where p=ex_params and st=ex_NHWC] vL o(1) by simp
  have rF: "int (dims (OUTPUT (snd (RunOnDeviceWithOrderNCHW ex_params ex_NCHW))) ! 2) = 2"
    using output_size_consistency[where p=ex_params and st=ex_NCHW] vF o(2) by simp
  have fL: "RunOnDeviceWithOrderNHWC ex_params ex_NHWC_bad_output =
     (Some InconsistentOutputSize, ex_NHWC_bad_output)"
    using output_size_consistency[where p=ex_params and st=ex_NHWC_bad_output and Y="OUTPUT ex_NHWC"] cL dL
    by (metis prod.collapse)
  have fF: "RunOnDeviceWithOrderNCHW ex_params ex_NCHW_bad_output =
     (Some InconsistentOutputSize, ex_NCHW_bad_output)"
    using output_size_consistency[where p=ex_params and st=ex_NCHW_bad_output and Y="OUTPUT ex_NCHW"] cF dF
    by (metis prod.collapse)
  show ?thesis using o(1) rL rF iL(3) iF(3) fL fF by simp
qed

section \<open>The channel-first orchestration\<close>

text \<open>
  Claim C5. In a channel-first call that passes validation, on well-formed tensors and
  with positive strides: the filter (M, C, kernel_h, kernel_w) is permuted to
  \<open>filter_tensor\<close> of shape (kernel_h, kernel_w, C, M) and the input (N, C, H, W) to
  \<open>X_tensor\<close> of shape (N, H, W, C); the channel-last pipeline on these two gives the
  tensor of shape (N, outH, outW, M) whose element is the bias plus the zero-filled sum
  over the permuted tensors; and the output, of shape (N, M, outH, outW), is that tensor
  permuted. Each permutation keeps the number of elements, and every element of the
  permuted tensor is the element of the source at the permuted multi-index.
\<close>

theorem channel_first_orchestration:
  fixes st :: "'a::{comm_monoid_add,times} blobs"
  assumes valid: "fst (RunOnDeviceWithOrderNCHW p st) = None"
      and wf: "wf_tensor (INPUT st)" "wf_tensor (FILTER st)" "wf_tensor (BIAS st)"
              "wf_tensor (OUTPUT st)"
      and pos: "0 < stride_h p" "0 < stride_w p"
      and dX: "dims (INPUT st) = [N, C, H, W]"
      and dY: "dims (OUTPUT st) = [N, M, oH, oW]"
  shows "dims (filter_tensor_NCHW p st) = [kernel_h p, kernel_w p, C, M] \<and>
         length (data (filter_tensor_NCHW p st)) = length (data (FILTER st)) \<and>
         (\<forall>i<kernel_h p. \<forall>j<kernel_w p. \<forall>c<C. \<forall>m<M.
            at4 (filter_tensor_NCHW p st) i j c m = at4 (FILTER st) m c i j) \<and>
         dims (X_tensor_NCHW st) = [N, H, W, C] \<and>
         length (data (X_tensor_NCHW st)) = length (data (INPUT st)) \<and>
         (\<forall>n<N. \<forall>h<H. \<forall>w<W. \<forall>c<C.
            at4 (X_tensor_NCHW st) n h w c = at4 (INPUT st) n c h w) \<and>
         dims (biased_NCHW p st) = [N, oH, oW, M] \<and>
         (\<forall>n<N. \<forall>y<oH. \<forall>x<oW. \<forall>m<M.
            at4 (biased_NCHW p st) n y x m =
            data (BIAS st) ! m +
            (\<Sum>i<kernel_h p. \<Sum>j<kernel_w p. \<Sum>c<C.
               zero_fill_NHWC (X_tensor_NCHW st) n
                  (int y * int (stride_h p) - int (pad_t p) + int i * int (dilation_h p))
                  (int x * int (stride_w p) - int (pad_l p) + int j * int (dilation_w p)) c *
               at4 (filter_tensor_NCHW p st) i j c m)) \<and>
         dims (OUTPUT (snd (RunOnDeviceWithOrderNCHW p st))) = [N, M, oH, oW] \<and>
         length (data (OUTPUT (snd (RunOnDeviceWithOrderNCHW p st)))) =
           length (data (biased_NCHW p st)) \<and>
         (\<forall>n<N. \<forall>m<M. \<forall>y<oH. \<forall>x<oW.
            at4 (OUTPUT (snd (RunOnDeviceWithOrderNCHW p st))) n m y x =
            at4 (biased_NCHW p st) n y x m)"
proof -
  note s = run_NCHW_success[OF valid]
  have nd: "ndim (INPUT st) = 4" by (simp add: ndim_def dX)
  from s(1) nd obtain oH' oW' where d:
    "dims (FILTER st) = [M, C, kernel_h p, kernel_w p]"
    "dims (BIAS st) = [M]"
    "int oH = out_dim H (kernel_h p) (stride_h p) (dilation_h p) (pad_t p) (pad_b p)"
    "int oW = out_dim W (kernel_w p) (stride_w p) (dilation_w p) (pad_l p) (pad_r p)"
    by (rule check_NCHW_NoneD) (simp add: dX dY)
  have dF0: "dims (FILTER st) ! 0 = M" by (simp add: d(1))
  have M0: "M \<noteq> 0" using s(2) by (simp add: dF0)
  have dFt: "dims (filter_tensor_NCHW p st) = [kernel_h p, kernel_w p, C, M]"
    by (simp add: filter_tensor_NCHW_dims dX d(1))
  have lFt: "length (data (filter_tensor_NCHW p st)) = length (data (FILTER st))"
    using wf(2)
    by (simp add: filter_tensor_NCHW_def Let_def shuffle_length TensorMap_simps wf_tensor_def
          dX d(1) algebra_simps)
  have eFt: "at4 (filter_tensor_NCHW p st) i j c m = at4 (FILTER st) m c i j"
    if "i < kernel_h p" "j < kernel_w p" "c < C" "m < M" for i j c m
    using filter_tensor_NCHW_nth[OF dX d(1) that] by (simp add: at4_def dFt)
  have dXt: "dims (X_tensor_NCHW st) = [N, H, W, C]"
    by (rule X_tensor_NCHW_dims[OF dX])
  have lXt: "length (data (X_tensor_NCHW st)) = length (data (INPUT st))"
    using wf(1)
    by (simp add: X_tensor_NCHW_def Let_def shuffle_length TensorMap_simps wf_tensor_def
          dX algebra_simps)
  have eXt: "at4 (X_tensor_NCHW st) n h w c = at4 (INPUT st) n c h w"
    if "n < N" "h < H" "w < W" "c < C" for n h w c
    using that by (rule X_tensor_NCHW_nth[OF dX])
  have dB: "dims (biased_NCHW p st) = [N, oH, oW, M]"
    by (simp add: biased_NCHW_dims contract_NCHW_dims[OF dY])
  have eB: "at4 (biased_NCHW p st) n y x m =
            data (BIAS st) ! m +
            (\<Sum>i<kernel_h p. \<Sum>j<kernel_w p. \<Sum>c<C.
               zero_fill_NHWC (X_tensor_NCHW st) n
                  (int y * int (stride_h p) - int (pad_t p) + int i * int (dilation_h p))
                  (int x * int (stride_w p) - int (pad_l p) + int j * int (dilation_w p)) c *
               at4 (filter_tensor_NCHW p st) i j c m)"
    if b: "n < N" "y < oH" "x < oW" "m < M" for n y x m
  proof -
    let ?k = "((n * oH + y) * oW + x) * M + m"
    have lt: "?k < N * oH * oW * M" using b by (rule size4)
    have "at4 (biased_NCHW p st) n y x m = data (biased_NCHW p st) ! ?k"
      by (simp add: at4_def dB)
    also have "\<dots> = data (contract_NCHW p st) ! ?k + data (BIAS st) ! (?k mod M)"
      by (rule biased_NCHW_nth[OF dF0 dY lt])
    also have "?k mod M = m" using b(4) by simp
    also have "data (contract_NCHW p st) ! ?k = at4 (contract_NCHW p st) n y x m"
      by (simp add: at4_def contract_NCHW_dims[OF dY])
    also have "\<dots> = (\<Sum>i<kernel_h p. \<Sum>j<kernel_w p. \<Sum>c<C.
            zero_fill_NCHW (INPUT st) n c
               (int y * int (stride_h p) - int (pad_t p) + int i * int (dilation_h p))
               (int x * int (stride_w p) - int (pad_l p) + int j * int (dilation_w p)) *
            at4 (FILTER st) m c i j)"
      by (rule contract_NCHW_nth[OF dX d(1) dY d(3,4) pos b])
    also have "\<dots> = (\<Sum>i<kernel_h p. \<Sum>j<kernel_w p. \<Sum>c<C.
               zero_fill_NHWC (X_tensor_NCHW st) n
                  (int y * int (stride_h p) - int (pad_t p) + int i * int (dilation_h p))
                  (int x * int (stride_w p) - int (pad_l p) + int j * int (dilation_w p)) c *
               at4 (filter_tensor_NCHW p st) i j c m)"
    proof (intro sum.cong refl)
      fix i j c
      assume "i \<in> {..<kernel_h p}" "j \<in> {..<kernel_w p}" "c \<in> {..<C}"
      then have bb: "i < kernel_h p" "j < kernel_w p" "c < C" by simp_all
      show "zero_fill_NCHW (INPUT st) n c
               (int y * int (stride_h p) - int (pad_t p) + int i * int (dilation_h p))
               (int x * int (stride_w p) - int (pad_l p) + int j * int (dilation_w p)) *
            at4 (FILTER st) m c i j =
            zero_fill_NHWC (X_tensor_NCHW st) n
                  (int y * int (stride_h p) - int (pad_t p) + int i * int (dilation_h p))
                  (int x * int (stride_w p) - int (pad_l p) + int j * int (dilation_w p)) c *
               at4 (filter_tensor_NCHW p st) i j c m"
        unfolding zero_fill_X_tensor_NCHW[OF dX b(1) bb(3)] eFt[OF bb b(4)] ..
    qed
    finally show ?thesis by (simp add: add.commute)
  qed
  have dO: "dims (OUTPUT (snd (RunOnDeviceWithOrderNCHW p st))) = [N, M, oH, oW]"
    by (simp add: s(3) dY)
  have lO: "length (data (OUTPUT (snd (RunOnDeviceWithOrderNCHW p st)))) =
           length (data (biased_NCHW p st))"
    by (simp add: s(3) conv_NCHW_length[OF dY wf(4)] biased_NCHW_length[OF dY M0 dF0]
          algebra_simps)
  have eO: "at4 (OUTPUT (snd (RunOnDeviceWithOrderNCHW p st))) n m y x =
            at4 (biased_NCHW p st) n y x m"
    if b: "n < N" "m < M" "y < oH" "x < oW" for n m y x
    using conv_NCHW_nth[OF dF0 dY b] by (simp add: s(3) at4_def dY)
  show ?thesis
    apply (intro conjI allI impI)
    subgoal by (rule dFt)
    subgoal by (rule lFt)
    subgoal by (rule eFt)
    subgoal by (rule dXt)
    subgoal by (rule lXt)
    subgoal by (rule eXt)
    subgoal by (rule dB)
    subgoal by (rule eB)
    subgoal by (rule dO)
    subgoal by (rule lO)
    subgoal by (rule eO)
    done
qed

theorem channel_first_orchestration_witness:
  "fst (RunOnDeviceWithOrderNCHW ex_params ex_NCHW) = None \<and>
   dims (filter_tensor_NCHW ex_params ex_NCHW) = [kernel_h ex_params, kernel_w ex_params, 2, 2] \<and>
   at4 (filter_tensor_NCHW ex_params ex_NCHW) 1 0 1 0 = at4 (FILTER ex_NCHW) 0 1 1 0 \<and>
   dims (X_tensor_NCHW ex_NCHW) = [1, 2, 3, 2] \<and>
   at4 (X_tensor_NCHW ex_NCHW) 0 1 2 0 = at4 (INPUT ex_NCHW) 0 0 1 2 \<and>
   dims (biased_NCHW ex_params ex_NCHW) = [1, 2, 2, 2] \<and>
   dims (OUTPUT (snd (RunOnDeviceWithOrderNCHW ex_params ex_NCHW))) = [1, 2, 2, 2] \<and>
   at4 (OUTPUT (snd (RunOnDeviceWithOrderNCHW ex_params ex_NCHW))) 0 1 0 1 =
     at4 (biased_NCHW ex_params ex_NCHW) 0 0 1 1"
proof -
  have v: "fst (RunOnDeviceWithOrderNCHW ex_params ex_NCHW) = None"
    by (simp add: ex_NCHW_run)
  have w: "wf_tensor (INPUT ex_NCHW)" "wf_tensor (FILTER ex_NCHW)" "wf_tensor (BIAS ex_NCHW)"
          "wf_tensor (OUTPUT ex_NCHW)"
    by (simp_all add: wf_tensor_def ex_NCHW_def ex_bias_def)
  have p: "0 < stride_h ex_params" "0 < stride_w ex_params"
    by (simp_all add: ex_params_def)
  have d: "dims (INPUT ex_NCHW) = [1, 2, 2, 3]" "dims (OUTPUT ex_NCHW) = [1, 2, 2, 2]"
    by (simp_all add: ex_NCHW_def)
  have k: "(1::nat) < kernel_h ex_params" "(0::nat) < kernel_w ex_params"
    by (simp_all add: ex_params_def)
  have b: "(0::nat) < 1" "(0::nat) < 2" "(1::nat) < 2" "(2::nat) < 3" by simp_all
  note T = channel_first_orchestration[OF v w p d]
  note T2 = T[THEN conjunct2, THEN conjunct2]
  note T4 = T2[THEN conjunct2, THEN conjunct2]
  note T6 = T4[THEN conjunct2, THEN conjunct2]
  note T8 = T6[THEN conjunct2, THEN conjunct2]
  have c1: "dims (filter_tensor_NCHW ex_params ex_NCHW) =
              [kernel_h ex_params, kernel_w ex_params, 2, 2]"
    by (rule T[THEN conjunct1])
  have c3: "at4 (filter_tensor_NCHW ex_params ex_NCHW) 1 0 1 0 = at4 (FILTER ex_NCHW) 0 1 1 0"
    by (rule T2[THEN conjunct1, rule_format, OF k(1) k(2) b(3) b(2)])
  have c4: "dims (X_tensor_NCHW ex_NCHW) = [1, 2, 3, 2]"
    by (rule T2[THEN conjunct2, THEN conjunct1])
  have c6: "at4 (X_tensor_NCHW ex_NCHW) 0 1 2 0 = at4 (INPUT ex_NCHW) 0 0 1 2"
    by (rule T4[THEN conjunct2, THEN conjunct1, rule_format, OF b(1) b(3) b(4) b(2)])
  have c7: "dims (biased_NCHW ex_params ex_NCHW) = [1, 2, 2, 2]"
    by (rule T6[THEN conjunct1])
  have c9: "dims (OUTPUT (snd (RunOnDeviceWithOrderNCHW ex_params ex_NCHW))) = [1, 2, 2, 2]"
    by (rule T8[THEN conjunct1])
  have c11: "at4 (OUTPUT (snd (RunOnDeviceWithOrderNCHW ex_params ex_NCHW))) 0 1 0 1 =
     at4 (biased_NCHW ex_params ex_NCHW) 0 0 1 1"
    by (rule T8[THEN conjunct2, THEN conjunct2, rule_format, OF b(1) b(3) b(2) b(3)])
  show ?thesis
    by (intro conjI v c1 c3 c4 c6 c7 c9 c11)
qed

section \<open>Reads of the patch extraction\<close>

text \<open>
  Claim C6. For a well-formed four-dimensional input and any parameters, whatever the
  padding, every element of the patch tensor that the channel-last entry point builds is
  either zero, when the sampled position lies outside the image, or an element of the
  input buffer at an index below the buffer's length.
\<close>

theorem patch_reads_in_bounds:
  fixes st :: "'a::zero blobs" and p :: conv_params
  defines "X_tensor \<equiv> TensorMap (data (INPUT st))
                       [dims (INPUT st) ! 0, dims (INPUT st) ! 1, dims (INPUT st) ! 2,
                        dims (INPUT st) ! 3]"
  defines "patches \<equiv> extract_image_patches X_tensor (kernel_w p) (kernel_h p)
                       (stride_w p) (stride_h p) (dilation_w p) (dilation_h p) 1 1
                       (pad_l p) (pad_r p) (pad_t p) (pad_b p) 0"
  defines "op \<equiv> \<lparr>patch_rows = kernel_w p, patch_cols = kernel_h p,
                 row_strides = stride_w p, col_strides = stride_h p,
                 in_row_strides = dilation_w p, in_col_strides = dilation_h p,
                 row_inflate_strides = 1, col_inflate_strides = 1,
                 padding_top = pad_l p, padding_bottom = pad_r p,
                 padding_left = pad_t p, padding_right = pad_b p\<rparr>"
  assumes nd: "ndim (INPUT st) = 4" and wf: "wf_tensor (INPUT st)"
      and idx: "index < prod_list (dims patches)"
  shows "case patch_src op (dims (INPUT st)) index of
           None \<Rightarrow> data patches ! index = 0
         | Some k \<Rightarrow> k < length (data (INPUT st)) \<and> data patches ! index = data (INPUT st) ! k"
proof -
  obtain N H W C where dX: "dims (INPUT st) = [N, H, W, C]"
    using list4[OF nd[unfolded ndim_def]] by blast
  have len: "length (data (INPUT st)) = N * H * W * C"
    using wf by (simp add: wf_tensor_def dX mult.assoc)
  have dP: "dims patches = patch_dims op [N, H, W, C]"
    by (simp add: patches_def X_tensor_def extract_image_patches_def Let_def TensorMap_simps
          dX op_def)
  have val: "data patches ! index =
             (case patch_src op [N, H, W, C] index of None \<Rightarrow> 0 | Some k \<Rightarrow> data X_tensor ! k)"
    using idx unfolding dP
    unfolding patches_def X_tensor_def op_def extract_image_patches_def Let_def
    by (simp add: TensorMap_simps dX)
  show ?thesis
  proof (cases "patch_src op [N, H, W, C] index")
    case None
    then show ?thesis by (simp add: dX val)
  next
    case (Some k)
    have "k < N * H * W * C"
      by (rule patch_src_bound[OF _ _ idx[unfolded dP] Some]) (simp_all add: op_def)
    then show ?thesis
      using Some unfolding val X_tensor_def by (simp add: dX len TensorMap_simps mult.assoc)
  qed
qed

theorem patch_reads_in_bounds_witness:
  "patch_src \<lparr>patch_rows = kernel_w ex_params_wide_pad, patch_cols = kernel_h ex_params_wide_pad,
                 row_strides = stride_w ex_params_wide_pad, col_strides = stride_h ex_params_wide_pad,
                 in_row_strides = dilation_w ex_params_wide_pad,
                 in_col_strides = dilation_h ex_params_wide_pad,
                 row_inflate_strides = 1, col_inflate_strides = 1,
                 padding_top = pad_l ex_params_wide_pad, padding_bottom = pad_r ex_params_wide_pad,
                 padding_left = pad_t ex_params_wide_pad, padding_right = pad_b ex_params_wide_pad\<rparr>
      (dims (INPUT ex_NHWC)) 197 = Some 3 \<and>
   3 < length (data (INPUT ex_NHWC)) \<and>
   data (extract_image_patches
           (TensorMap (data (INPUT ex_NHWC))
              [dims (INPUT ex_NHWC) ! 0, dims (INPUT ex_NHWC) ! 1, dims (INPUT ex_NHWC) ! 2,
               dims (INPUT ex_NHWC) ! 3])
           (kernel_w ex_params_wide_pad) (kernel_h ex_params_wide_pad)
           (stride_w ex_params_wide_pad) (stride_h ex_params_wide_pad)
           (dilation_w ex_params_wide_pad) (dilation_h ex_params_wide_pad) 1 1
           (pad_l ex_params_wide_pad) (pad_r ex_params_wide_pad)
           (pad_t ex_params_wide_pad) (pad_b ex_params_wide_pad) 0) ! 197 =
     data (INPUT ex_NHWC) ! 3"
proof -
  have nd: "ndim (INPUT ex_NHWC) = 4" and wf: "wf_tensor (INPUT ex_NHWC)"
    by (simp_all add: ndim_def wf_tensor_def ex_NHWC_def)
  have idx: "197 < prod_list (dims (extract_image_patches
           (TensorMap (data (INPUT ex_NHWC))
              [dims (INPUT ex_NHWC) ! 0, dims (INPUT ex_NHWC) ! 1, dims (INPUT ex_NHWC) ! 2,
               dims (INPUT ex_NHWC) ! 3])
           (kernel_w ex_params_wide_pad) (kernel_h ex_params_wide_pad)
           (stride_w ex_params_wide_pad) (stride_h ex_params_wide_pad)
           (dilation_w ex_params_wide_pad) (dilation_h ex_params_wide_pad) 1 1
           (pad_l ex_params_wide_pad) (pad_r ex_params_wide_pad)
           (pad_t ex_params_wide_pad) (pad_b ex_params_wide_pad) 0))"
    by (simp add: extract_image_patches_def Let_def patch_dims_def outputRows_def outputCols_def
          ceil_div_def input_eff_def patch_eff_def ex_params_wide_pad_def ex_params_def
          ex_NHWC_def TensorMap_simps)
  have src: "patch_src \<lparr>patch_rows = kernel_w ex_params_wide_pad, patch_cols = kernel_h ex_params_wide_pad,
                 row_strides = stride_w ex_params_wide_pad, col_strides = stride_h ex_params_wide_pad,
                 in_row_strides = dilation_w ex_params_wide_pad,
                 in_col_strides = dilation_h ex_params_wide_pad,
                 row_inflate_strides = 1, col_inflate_strides = 1,
                 padding_top = pad_l ex_params_wide_pad, padding_bottom = pad_r ex_params_wide_pad,
                 padding_left = pad_t ex_params_wide_pad, padding_right = pad_b ex_params_wide_pad\<rparr>
      (dims (INPUT ex_NHWC)) 197 = Some 3"
    by code_simp
  from patch_reads_in_bounds[where st=ex_NHWC and p=ex_params_wide_pad and index=197,
        OF nd wf idx] src
  show ?thesis by simp
qed

section \<open>The filter matrix of the channel-last entry point\<close>

text \<open>
  Claim C8, as stated: the filter supplied by the caller, reshaped to
  (kernel_h * kernel_w * C, M), is the matrix of the contraction. It is not: for the
  example call the two buffers differ.
\<close>

theorem filter_reshaped_directly_counterexample:
  "data (filter_matrix_NHWC ex_params ex_NHWC) \<noteq>
   data (reshape [kernel_h ex_params * kernel_w ex_params * (dims (INPUT ex_NHWC) ! 3),
                  dims (FILTER ex_NHWC) ! 0] (FILTER ex_NHWC))"
  by (simp add: filter_matrix_NHWC_def temp_filter_def transpose_array_def reshape_def
        TensorMap_simps Let_def ex_params_def ex_NHWC_def upt_rec[of _ "numeral _"])

text \<open>
  Claim C8, amended. The filter, supplied as (M, kernel_h, kernel_w, C), is first
  transposed as an M x (kernel_h * kernel_w * C) matrix into the temporary
  \<open>temp_filter\<close>, with the same number of elements; the temporary reshapes into the
  matrix of the contraction without any further permutation, so that element
  \<open>(k, m)\<close> of that matrix is element \<open>(m, k)\<close> of the supplied filter.
\<close>

theorem filter_transposed_then_reshaped:
  assumes dX: "dims (INPUT st) ! 3 = C"
      and dF: "dims (FILTER st) = [M, kernel_h p, kernel_w p, C]"
      and wf: "wf_tensor (FILTER st)"
  shows "dims (filter_matrix_NHWC p st) = [kernel_h p * kernel_w p * C, M] \<and>
         data (filter_matrix_NHWC p st) = temp_filter p st \<and>
         length (temp_filter p st) = length (data (FILTER st)) \<and>
         (\<forall>k<kernel_h p * kernel_w p * C. \<forall>m<M.
            data (filter_matrix_NHWC p st) ! (k * M + m) =
            data (FILTER st) ! (m * (kernel_h p * kernel_w p * C) + k))"
proof -
  let ?K = "kernel_h p * kernel_w p * C"
  have len: "length (temp_filter p st) = M * ?K"
    by (simp add: temp_filter_def Let_def transpose_array_length dX dF)
  have d: "dims (filter_matrix_NHWC p st) = [?K, M]"
    by (simp add: filter_matrix_NHWC_dims dX dF)
  have e: "data (filter_matrix_NHWC p st) = temp_filter p st"
    using len by (simp add: filter_matrix_NHWC_def Let_def reshape_def TensorMap_simps dX dF
                    algebra_simps)
  have l: "length (temp_filter p st) = length (data (FILTER st))"
    using wf by (simp add: len wf_tensor_def dF algebra_simps)
  have n: "data (filter_matrix_NHWC p st) ! (k * M + m) = data (FILTER st) ! (m * ?K + k)"
    if "k < ?K" "m < M" for k m
    unfolding e temp_filter_def Let_def dX using that
    by (simp add: dF transpose_array_nth)
  show ?thesis using d e l n by blast
qed

theorem filter_transposed_then_reshaped_witness:
  "dims (filter_matrix_NHWC ex_params ex_NHWC) = [4, 2] \<and>
   data (filter_matrix_NHWC ex_params ex_NHWC) = temp_filter ex_params ex_NHWC \<and>
   data (filter_matrix_NHWC ex_params ex_NHWC) ! (1 * 2 + 0) = data (FILTER ex_NHWC) ! (0 * 4 + 1)"
proof -
  have dX: "dims (INPUT ex_NHWC) ! 3 = 2"
    and dF: "dims (FILTER ex_NHWC) = [2, kernel_h ex_params, kernel_w ex_params, 2]"
    and wf: "wf_tensor (FILTER ex_NHWC)"
    and K: "kernel_h ex_params * kernel_w ex_params * 2 = 4"
    by (simp_all add: ex_NHWC_def ex_params_def wf_tensor_def)
  have b: "(1::nat) < 4" "(0::nat) < 2" by simp_all
  from filter_transposed_then_reshaped[OF dX dF wf] b show ?thesis
    unfolding K by blast
qed

section \<open>Failures before any computation\<close>

text \<open>
  Claim C4. A call in which the filter does not have four dimensions, the bias does not
  have one, the filter's channel dimension differs from the channel count of the input,
  or the length of the bias differs from the filter's number of output channels, fails
  with \<open>InvalidShape\<close>, and the blobs, the output among them, are as they were before
  the call. The channel dimension is the last one in the channel-last entry point and
  dimension 1 in the channel-first one.
\<close>

theorem invalid_shape_fails_before_computation:
  "(ndim (FILTER st) \<noteq> 4 \<or> ndim (BIAS st) \<noteq> 1 \<or>
    dims (FILTER st) ! 3 \<noteq> dims (INPUT st) ! 3 \<or>
    dims (BIAS st) ! 0 \<noteq> dims (FILTER st) ! 0
    \<longrightarrow> RunOnDeviceWithOrderNHWC p st = (Some InvalidShape, st)) \<and>
   (ndim (FILTER st) \<noteq> 4 \<or> ndim (BIAS st) \<noteq> 1 \<or>
    dims (FILTER st) ! 1 \<noteq> dims (INPUT st) ! 1 \<or>
    dims (BIAS st) ! 0 \<noteq> dims (FILTER st) ! 0
    \<longrightarrow> RunOnDeviceWithOrderNCHW p st = (Some InvalidShape, st))"
  by (auto simp add: RunOnDeviceWithOrderNHWC_def RunOnDeviceWithOrderNCHW_def
        check_NHWC_def check_NCHW_def Let_def)

theorem invalid_shape_fails_before_computation_witness:
  "dims (FILTER ex_NHWC_bad_channels) ! 3 \<noteq> dims (INPUT ex_NHWC_bad_channels) ! 3 \<and>
   RunOnDeviceWithOrderNHWC ex_params ex_NHWC_bad_channels =
     (Some InvalidShape, ex_NHWC_bad_channels) \<and>
   dims (FILTER ex_NCHW_bad_channels) ! 1 \<noteq> dims (INPUT ex_NCHW_bad_channels) ! 1 \<and>
   RunOnDeviceWithOrderNCHW ex_params ex_NCHW_bad_channels =
     (Some InvalidShape, ex_NCHW_bad_channels)"
proof -
  have a: "dims (FILTER ex_NHWC_bad_channels) ! 3 \<noteq> dims (INPUT ex_NHWC_bad_channels) ! 3"
    by (simp add: ex_NHWC_bad_channels_def ex_NHWC_def)
  have b: "dims (FILTER ex_NCHW_bad_channels) ! 1 \<noteq> dims (INPUT ex_NCHW_bad_channels) ! 1"
    by (simp add: ex_NCHW_bad_channels_def ex_NCHW_def)
  show ?thesis
    using a b
      invalid_shape_fails_before_computation [of ex_NHWC_bad_channels ex_params]
      invalid_shape_fails_before_computation [of ex_NCHW_bad_channels ex_params]
    by blast
qed

text \<open>
  Claim C9. A call whose filter has spatial dimensions other than the configured
  kernel size fails with \<open>InvalidShape\<close> and leaves the blobs as they were: dimensions
  2 and 3 of the filter in the channel-first entry point, dimensions 1 and 2 in the
  channel-last one.
\<close>

theorem kernel_size_mismatch_fails:
  "(dims (FILTER st) ! 2 \<noteq> kernel_h p \<or> dims (FILTER st) ! 3 \<noteq> kernel_w p
    \<longrightarrow> RunOnDeviceWithOrderNCHW p st = (Some InvalidShape, st)) \<and>
   (dims (FILTER st) ! 1 \<noteq> kernel_h p \<or> dims (FILTER st) ! 2 \<noteq> kernel_w p
    \<longrightarrow> RunOnDeviceWithOrderNHWC p st = (Some InvalidShape, st))"
  by (auto simp add: RunOnDeviceWithOrderNHWC_def RunOnDeviceWithOrderNCHW_def
        check_NHWC_def check_NCHW_def Let_def)

theorem kernel_size_mismatch_fails_witness:
  "dims (FILTER ex_NCHW) ! 2 \<noteq> kernel_h ex_params_kernel3 \<and>
   RunOnDeviceWithOrderNCHW ex_params_kernel3 ex_NCHW = (Some InvalidShape, ex_NCHW) \<and>
   dims (FILTER ex_NHWC) ! 1 \<noteq> kernel_h ex_params_kernel3 \<and>
   RunOnDeviceWithOrderNHWC ex_params_kernel3 ex_NHWC = (Some InvalidShape, ex_NHWC)"
proof -
  have a: "dims (FILTER ex_NCHW) ! 2 \<noteq> kernel_h ex_params_kernel3"
    by (simp add: ex_NCHW_def ex_params_kernel3_def ex_params_def)
  have b: "dims (FILTER ex_NHWC) ! 1 \<noteq> kernel_h ex_params_kernel3"
    by (simp add: ex_NHWC_def ex_params_kernel3_def ex_params_def)
  show ?thesis
    using a b
      kernel_size_mismatch_fails [of ex_NCHW ex_params_kernel3]
      kernel_size_mismatch_fails [of ex_NHWC ex_params_kernel3]
    by blast
qed

section \<open>The inputs of a call\<close>

text \<open>
  Claim C10. Whether a call of either entry point succeeds or fails, the input tensor,
  the filter and the bias are afterwards what they were before: the views built over
  them are only read.
\<close>

theorem inputs_left_unchanged:
  "INPUT (snd (RunOnDeviceWithOrderNHWC p st)) = INPUT st \<and>
   FILTER (snd (RunOnDeviceWithOrderNHWC p st)) = FILTER st \<and>
   BIAS (snd (RunOnDeviceWithOrderNHWC p st)) = BIAS st \<and>
   INPUT (snd (RunOnDeviceWithOrderNCHW p st)) = INPUT st \<and>
   FILTER (snd (RunOnDeviceWithOrderNCHW p st)) = FILTER st \<and>
   BIAS (snd (RunOnDeviceWithOrderNCHW p st)) = BIAS st"
  by (simp add: RunOnDeviceWithOrderNHWC_def RunOnDeviceWithOrderNCHW_def split: option.split)

end
